theory Spec2Isabelle
  imports Main "HOL-Library.Monad_Syntax" "HOL-Library.AList" "HOL-Library.Sublist"
begin

section \<open>Values and the object store\<close>

text \<open>
  The module \<^verbatim>\<open>db/models.py\<close> serialises model instances into dictionaries. Three kinds
  of Python object have an identity that the code reads or writes: the model instance (with
  its \<^verbatim>\<open>__dict__\<close>), the collection of excluded names, and the dictionary that
  \<^verbatim>\<open>get_dict\<close> returns. They live in a store, addressed by their position; a new object
  is put at the end, so its address is fresh.

  A value is what a dictionary or a list holds. Strings, integers and \<^verbatim>\<open>None\<close> are
  immutable; \<open>VObj\<close> is a reference to a model instance (compared by identity, as Python
  compares instances without \<^verbatim>\<open>__eq__\<close>). A list or dictionary stored inside another
  container is kept by value: this module never writes to a container after storing it.
  A dictionary is an association list in insertion order, as Python keeps it.
  \<open>VProxy a\<close> is the entry that the association proxy keeps in the \<^verbatim>\<open>__dict__\<close> of the
  instance at \<open>a\<close> once it has been read there: the tuple of the owner's identity and the
  collection that the read returned.
\<close>

type_synonym addr = nat

datatype val =
    VNone
  | VInt int
  | VStr string
  | VObj addr
  | VList "val list"
  | VDict "(string \<times> val) list"
  | VProxy addr

type_synonym dict = "(string \<times> val) list"

text \<open>
  An instance holds the address of its \<^verbatim>\<open>__dict__\<close> and, in the order of its association
  rows, the objects that the rows refer to: the \<^verbatim>\<open>role\<close> of each \<^verbatim>\<open>EmployeeToRole\<close> row of
  an Employee, the \<^verbatim>\<open>group\<close> of each \<^verbatim>\<open>RoleToGroup\<close> row of a Role; none for the other
  classes. A row made without its target (\<^verbatim>\<open>role = None\<close>, \<^verbatim>\<open>group = None\<close>, the
  constructors' defaults) refers to \<^verbatim>\<open>None\<close>, which is an object too.

  The exclusion argument is documented as a list; a caller can pass a tuple, a set or
  \<^verbatim>\<open>None\<close> as well. A set is given by its members.
\<close>

datatype obj =
    PyList "val list"
  | PyDict dict
  | Inst addr "addr list"
  | PyNone
  | PyTuple "val list"
  | PySet "val list"

type_synonym heap = "obj list"

definition lookup :: "heap \<Rightarrow> addr \<Rightarrow> obj option" where
  "lookup h a = (if a < length h then Some (h ! a) else None)"

definition alloc :: "heap \<Rightarrow> obj \<Rightarrow> addr \<times> heap" where
  "alloc h ob = (length h, h @ [ob])"

text \<open>Reading an object as a list, a dictionary or an instance; \<open>None\<close> is Python raising.\<close>

definition list_at :: "heap \<Rightarrow> addr \<Rightarrow> val list option" where
  "list_at h a = (case lookup h a of Some (PyList xs) \<Rightarrow> Some xs | _ \<Rightarrow> None)"

definition dict_at :: "heap \<Rightarrow> addr \<Rightarrow> dict option" where
  "dict_at h a = (case lookup h a of Some (PyDict m) \<Rightarrow> Some m | _ \<Rightarrow> None)"

definition inst_at :: "heap \<Rightarrow> addr \<Rightarrow> (addr \<times> addr list) option" where
  "inst_at h a = (case lookup h a of Some (Inst d ps) \<Rightarrow> Some (d, ps) | _ \<Rightarrow> None)"

text \<open>\<^verbatim>\<open>self.__dict__\<close>, and the objects that the association rows of \<open>self\<close> refer to.\<close>

definition dict_of :: "heap \<Rightarrow> addr \<Rightarrow> addr option" where
  "dict_of h self = map_option fst (inst_at h self)"

definition proxy :: "heap \<Rightarrow> addr \<Rightarrow> addr list option" where
  "proxy h self = map_option snd (inst_at h self)"

text \<open>The attributes of an instance: the contents of its \<^verbatim>\<open>__dict__\<close>.\<close>

definition attrs :: "heap \<Rightarrow> addr \<Rightarrow> dict option" where
  "attrs h self = do { d \<leftarrow> dict_of h self; dict_at h d }"

subsection \<open>The Python operations the module uses\<close>

text \<open>\<^verbatim>\<open>dict(d)\<close>: a new dictionary with the entries of \<open>d\<close>.\<close>

definition dict_copy :: "heap \<Rightarrow> addr \<Rightarrow> (addr \<times> heap) option" where
  "dict_copy h d = do { m \<leftarrow> dict_at h d; Some (alloc h (PyDict m)) }"

text \<open>\<^verbatim>\<open>xs.append(x)\<close> writes to the list object itself; only a list has \<^verbatim>\<open>append\<close>.\<close>

definition list_append :: "heap \<Rightarrow> addr \<Rightarrow> val \<Rightarrow> heap option" where
  "list_append h e x = do { xs \<leftarrow> list_at h e; Some (h[e := PyList (xs @ [x])]) }"

text \<open>
  \<^verbatim>\<open>k in xs\<close> for a string \<open>k\<close>: a list, a tuple and a set are searched for a member, a
  dictionary for a key; \<^verbatim>\<open>None\<close> and a model instance raise.
\<close>

definition members :: "heap \<Rightarrow> addr \<Rightarrow> val list option" where
  "members h a =
     (case lookup h a of
        Some (PyList xs) \<Rightarrow> Some xs
      | Some (PyTuple xs) \<Rightarrow> Some xs
      | Some (PySet xs) \<Rightarrow> Some xs
      | Some (PyDict m) \<Rightarrow> Some (map (\<lambda>(k, v). VStr k) m)
      | _ \<Rightarrow> None)"

definition contains :: "heap \<Rightarrow> addr \<Rightarrow> string \<Rightarrow> bool option" where
  "contains h e k = do { xs \<leftarrow> members h e; Some (VStr k \<in> set xs) }"

text \<open>
  \<^verbatim>\<open>d.update([(k, v)])\<close>, and \<^verbatim>\<open>self.k = v\<close>: an existing key keeps its place, a new one
  goes to the end.
\<close>

definition dict_update :: "heap \<Rightarrow> addr \<Rightarrow> string \<Rightarrow> val \<Rightarrow> heap option" where
  "dict_update h d k v = do { m \<leftarrow> dict_at h d; Some (h[d := PyDict (AList.update k v m)]) }"

definition setattr :: "heap \<Rightarrow> addr \<Rightarrow> string \<Rightarrow> val \<Rightarrow> heap option" where
  "setattr h self k v = do { d \<leftarrow> dict_of h self; dict_update h d k v }"

text \<open>
  Modelled from the spec: the declarative base class \<^verbatim>\<open>db.database.Base\<close> is imported
  by the module and is not among the sources. In the spec a record holds its currently-set
  attributes and nothing else, and a new Employee has no roles. So a new instance has an
  empty \<^verbatim>\<open>__dict__\<close> and no associated rows, and an assignment in a constructor is a
  plain attribute write.
\<close>

definition new_object :: "heap \<Rightarrow> addr \<times> heap" where
  "new_object h = (let (d, h1) = alloc h (PyDict []) in alloc h1 (Inst d []))"

text \<open>
  Modelled from the spec: \<^verbatim>\<open>db.helpers.filter_dictionary\<close> is imported by the module and
  is not among the sources. The spec gives the base behaviour as: copy every currently-set
  attribute of the record into a new mapping, then remove every key present in
  \<^verbatim>\<open>exclude\<close>. The copy is made by the caller (\<^verbatim>\<open>dict(self.__dict__)\<close>); the helper
  removes the excluded keys from the mapping it is given and returns that mapping. It reads
  the exclusion collection (a key is present in it as \<^verbatim>\<open>in\<close> finds it) and leaves it as
  it is.
\<close>

definition filter_dictionary :: "heap \<Rightarrow> addr \<Rightarrow> addr \<Rightarrow> (addr \<times> heap) option" where
  "filter_dictionary h d excludes = do {
     m \<leftarrow> dict_at h d;
     xs \<leftarrow> members h excludes;
     Some (d, h[d := PyDict (filter (\<lambda>(k, v). VStr k \<notin> set xs) m)])
   }"

text \<open>
  \<^verbatim>\<open>self.roles\<close> and \<^verbatim>\<open>self.groups\<close> are \<^verbatim>\<open>association_proxy\<close> descriptors of the ORM
  library (lines 104 and 178). Reading one on an instance looks in the instance's
  \<^verbatim>\<open>__dict__\<close> for the entry it keeps there, under a key made of the descriptor's class
  name, the name of the collection and the descriptor's identity. If the entry is there and
  names this instance as its owner, the read returns the collection kept in it; otherwise
  it makes the collection and stores the entry with \<^verbatim>\<open>setattr\<close>. So the first read of
  \<^verbatim>\<open>self.roles\<close> writes to \<^verbatim>\<open>self.__dict__\<close>. The identity of a descriptor is a
  number fixed when the class is defined; the keys stand here without it. An entry that
  another owner left under the key is replaced; so is, in the model, an entry of any other
  shape, which neither the module nor the library writes.
\<close>

definition roles_key :: string where
  "roles_key = ''_AssociationProxy_employee_roles''"

definition groups_key :: string where
  "groups_key = ''_AssociationProxy_role_groups''"

definition proxy_get :: "heap \<Rightarrow> addr \<Rightarrow> string \<Rightarrow> (addr list \<times> heap) option" where
  "proxy_get h self key = do {
     ps \<leftarrow> proxy h self;
     m \<leftarrow> attrs h self;
     if map_of m key = Some (VProxy self) then Some (ps, h)
     else do { h1 \<leftarrow> setattr h self key (VProxy self); Some (ps, h1) }
   }"

section \<open>The module\<close>

text \<open>
  A default argument \<^verbatim>\<open>excludes = []\<close> is one list object, created when the function is
  defined and shared by every call that omits the argument. The module defines four such
  functions, in this order; their lists are the first four objects of the store.
\<close>

definition Model_default :: addr where "Model_default = 0"
definition Employee_default :: addr where "Employee_default = 1"
definition App_default :: addr where "App_default = 2"
definition Role_default :: addr where "Role_default = 3"

definition heap0 :: heap where
  "heap0 = [PyList [], PyList [], PyList [], PyList []]"

subsection \<open>\<^verbatim>\<open>Model.get_dict\<close>\<close>

definition Model_get_dict :: "heap \<Rightarrow> addr \<Rightarrow> addr \<Rightarrow> (addr \<times> heap) option" where
  "Model_get_dict h self excludes = do {
     d \<leftarrow> dict_of h self;
     (c, h1) \<leftarrow> dict_copy h d;
     filter_dictionary h1 c excludes
   }"

subsection \<open>\<^verbatim>\<open>User\<close>\<close>

definition User_get_dict :: "heap \<Rightarrow> addr \<Rightarrow> addr \<Rightarrow> (addr \<times> heap) option" where
  "User_get_dict h self excludes = do {
     (user_dict, h1) \<leftarrow> Model_get_dict h self excludes;
     Some (user_dict, h1)
   }"

subsection \<open>\<^verbatim>\<open>Role\<close> and \<^verbatim>\<open>Group\<close>\<close>

text \<open>
  The list comprehension \<^verbatim>\<open>[x.get_dict() for x in xs]\<close>: each call runs in the store the
  previous one left, and the dictionary it returns becomes an element of the list. Where
  \<open>x\<close> is \<^verbatim>\<open>None\<close> the call raises, as \<open>f\<close> does on an object that is no instance.
\<close>

fun get_dict_each ::
  "(heap \<Rightarrow> addr \<Rightarrow> (addr \<times> heap) option) \<Rightarrow> heap \<Rightarrow> addr list \<Rightarrow> (val list \<times> heap) option"
where
  "get_dict_each f h [] = Some ([], h)"
| "get_dict_each f h (x # xs) = do {
     (d, h1) \<leftarrow> f h x;
     m \<leftarrow> dict_at h1 d;
     (vs, h2) \<leftarrow> get_dict_each f h1 xs;
     Some (VDict m # vs, h2)
   }"

text \<open>\<^verbatim>\<open>Group\<close> has no \<^verbatim>\<open>get_dict\<close> of its own: \<^verbatim>\<open>group.get_dict()\<close> is \<^verbatim>\<open>Model.get_dict\<close>
  with its default list.\<close>

definition Role_get_dict :: "heap \<Rightarrow> addr \<Rightarrow> addr \<Rightarrow> (addr \<times> heap) option" where
  "Role_get_dict h self excludes = do {
     (role_dict, h1) \<leftarrow> Model_get_dict h self excludes;
     excluded \<leftarrow> contains h1 excludes ''groups'';
     if \<not> excluded then do {
       (gs, h2) \<leftarrow> proxy_get h1 self groups_key;
       (groups, h3) \<leftarrow> get_dict_each (\<lambda>h group. Model_get_dict h group Model_default) h2 gs;
       h4 \<leftarrow> dict_update h3 role_dict ''groups'' (VList groups);
       Some (role_dict, h4)
     } else Some (role_dict, h1)
   }"

subsection \<open>\<^verbatim>\<open>Employee\<close>\<close>

definition Employee_init :: "heap \<Rightarrow> addr \<Rightarrow> val \<Rightarrow> val \<Rightarrow> val \<Rightarrow> val \<Rightarrow> heap option" where
  "Employee_init h self email first_name last_name slack_id = do {
     h1 \<leftarrow> setattr h self ''email'' email;
     h2 \<leftarrow> setattr h1 self ''first_name'' first_name;
     h3 \<leftarrow> setattr h2 self ''last_name'' last_name;
     setattr h3 self ''slack_id'' slack_id
   }"

text \<open>\<^verbatim>\<open>Employee(email, first_name, last_name, slack_id)\<close>; \<^verbatim>\<open>slack_id\<close> defaults to
  the empty string.\<close>

definition Employee_new :: "heap \<Rightarrow> val \<Rightarrow> val \<Rightarrow> val \<Rightarrow> val \<Rightarrow> (addr \<times> heap) option" where
  "Employee_new h email first_name last_name slack_id =
     (let (self, h1) = new_object h in do {
        h2 \<leftarrow> Employee_init h1 self email first_name last_name slack_id;
        Some (self, h2)
      })"

definition Employee_get_dict :: "heap \<Rightarrow> addr \<Rightarrow> addr \<Rightarrow> (addr \<times> heap) option" where
  "Employee_get_dict h self excludes = do {
     (employee_dict, h1) \<leftarrow> Model_get_dict h self excludes;
     excluded \<leftarrow> contains h1 excludes ''roles'';
     if \<not> excluded then do {
       (rs, h2) \<leftarrow> proxy_get h1 self roles_key;
       (roles, h3) \<leftarrow> get_dict_each (\<lambda>h role. Role_get_dict h role Role_default) h2 rs;
       h4 \<leftarrow> dict_update h3 employee_dict ''roles'' (VList roles);
       Some (employee_dict, h4)
     } else Some (employee_dict, h1)
   }"

subsection \<open>\<^verbatim>\<open>App\<close>\<close>

definition App_init :: "heap \<Rightarrow> addr \<Rightarrow> val \<Rightarrow> val \<Rightarrow> heap option" where
  "App_init h self name token = do {
     h1 \<leftarrow> setattr h self ''name'' name;
     setattr h1 self ''token'' token
   }"

definition App_new :: "heap \<Rightarrow> val \<Rightarrow> val \<Rightarrow> (addr \<times> heap) option" where
  "App_new h name token =
     (let (self, h1) = new_object h in do {
        h2 \<leftarrow> App_init h1 self name token;
        Some (self, h2)
      })"

definition App_get_dict :: "heap \<Rightarrow> addr \<Rightarrow> addr \<Rightarrow> (addr \<times> heap) option" where
  "App_get_dict h self excludes = do {
     h1 \<leftarrow> list_append h excludes (VStr ''token'');
     Model_get_dict h1 self excludes
   }"

subsection \<open>The seven classes\<close>

text \<open>
  \<^verbatim>\<open>Group\<close>, \<^verbatim>\<open>EmployeeToRole\<close> and \<^verbatim>\<open>RoleToGroup\<close> inherit \<^verbatim>\<open>Model.get_dict\<close>.
\<close>

datatype kind = User | Employee | App | Role | Group | EmployeeToRole | RoleToGroup

fun get_dict :: "kind \<Rightarrow> heap \<Rightarrow> addr \<Rightarrow> addr \<Rightarrow> (addr \<times> heap) option" where
  "get_dict User h self excludes = User_get_dict h self excludes"
| "get_dict Employee h self excludes = Employee_get_dict h self excludes"
| "get_dict App h self excludes = App_get_dict h self excludes"
| "get_dict Role h self excludes = Role_get_dict h self excludes"
| "get_dict Group h self excludes = Model_get_dict h self excludes"
| "get_dict EmployeeToRole h self excludes = Model_get_dict h self excludes"
| "get_dict RoleToGroup h self excludes = Model_get_dict h self excludes"

text \<open>
  A caller that passes a new empty list: \<^verbatim>\<open>record.get_dict([])\<close>.
\<close>

definition get_dict_empty :: "kind \<Rightarrow> heap \<Rightarrow> addr \<Rightarrow> (addr \<times> heap) option" where
  "get_dict_empty k h self = (let (e, h0) = alloc h (PyList []) in get_dict k h0 self e)"

section \<open>Well-formed stores\<close>

text \<open>
  Python has no dangling reference, and the ORM types the relationships: an instance has a
  \<^verbatim>\<open>__dict__\<close>, the roles of an Employee are Role instances, the groups of a Role are
  Group instances, and the default lists exist. These predicates say so for the objects a
  call reaches.
\<close>

definition the_attrs :: "heap \<Rightarrow> addr \<Rightarrow> dict" where
  "the_attrs h a = (case attrs h a of Some m \<Rightarrow> m | None \<Rightarrow> [])"

definition the_proxy :: "heap \<Rightarrow> addr \<Rightarrow> addr list" where
  "the_proxy h a = (case proxy h a of Some ps \<Rightarrow> ps | None \<Rightarrow> [])"

definition the_list :: "heap \<Rightarrow> addr \<Rightarrow> val list" where
  "the_list h a = (case list_at h a of Some xs \<Rightarrow> xs | None \<Rightarrow> [])"

definition inst_ok :: "heap \<Rightarrow> addr \<Rightarrow> bool" where
  "inst_ok h a = (attrs h a \<noteq> None)"

definition role_ok :: "heap \<Rightarrow> addr \<Rightarrow> bool" where
  "role_ok h a = (inst_ok h a \<and> list_all (inst_ok h) (the_proxy h a) \<and> list_at h Model_default \<noteq> None)"

definition employee_ok :: "heap \<Rightarrow> addr \<Rightarrow> bool" where
  "employee_ok h a = (inst_ok h a \<and> list_all (role_ok h) (the_proxy h a) \<and> list_at h Role_default \<noteq> None)"

definition record_ok :: "kind \<Rightarrow> heap \<Rightarrow> addr \<Rightarrow> bool" where
  "record_ok k h a = (case k of Employee \<Rightarrow> employee_ok h a | Role \<Rightarrow> role_ok h a | _ \<Rightarrow> inst_ok h a)"

text \<open>
  Two Python objects of different classes do not share a \<^verbatim>\<open>__dict__\<close>, and two instances
  that do are the same instance. \<open>apart h as bs\<close>: no instance of \<open>as\<close> has the
  \<^verbatim>\<open>__dict__\<close> of one of \<open>bs\<close>. \<open>employee_apart\<close>: the Employee, its roles and their groups
  are objects of three classes.
\<close>

definition apart :: "heap \<Rightarrow> addr list \<Rightarrow> addr list \<Rightarrow> bool" where
  "apart h as bs = list_all (\<lambda>a. list_all (\<lambda>b. dict_of h a \<noteq> dict_of h b) bs) as"

definition own_dicts :: "heap \<Rightarrow> addr list \<Rightarrow> bool" where
  "own_dicts h as =
     list_all (\<lambda>a. list_all (\<lambda>b. if dict_of h a = dict_of h b then a = b else True) as) as"

definition all_groups :: "heap \<Rightarrow> addr list \<Rightarrow> addr list" where
  "all_groups h rs = concat (map (the_proxy h) rs)"

definition employee_apart :: "heap \<Rightarrow> addr \<Rightarrow> bool" where
  "employee_apart h self =
     (let rs = the_proxy h self; gs = all_groups h rs
      in apart h [self] rs \<and> apart h [self] gs \<and> apart h rs gs \<and> own_dicts h rs)"

text \<open>
  An instance on which the proxy has been read holds the proxy's entry. A record is warmed
  when every read of a proxy that its \<^verbatim>\<open>get_dict\<close> makes finds the entry.
\<close>

definition cached :: "heap \<Rightarrow> addr \<Rightarrow> string \<Rightarrow> bool" where
  "cached h a key = (map_of (the_attrs h a) key = Some (VProxy a))"

definition warmed :: "kind \<Rightarrow> heap \<Rightarrow> addr \<Rightarrow> bool" where
  "warmed k h a =
     (case k of
        Employee \<Rightarrow> cached h a roles_key \<and> list_all (\<lambda>r. cached h r groups_key) (the_proxy h a)
      | Role \<Rightarrow> cached h a groups_key
      | _ \<Rightarrow> True)"

section \<open>What a call returns and what it writes\<close>

text \<open>The keys of a dictionary, and a dictionary without the keys named in a list.\<close>

definition dict_keys :: "dict \<Rightarrow> string set" where
  "dict_keys m = fst ` set m"

definition keep :: "val list \<Rightarrow> dict \<Rightarrow> dict" where
  "keep xs m = filter (\<lambda>(k, v). VStr k \<notin> set xs) m"

text \<open>The store after a read of the proxy of the instance at \<open>a\<close>.\<close>

definition warm :: "heap \<Rightarrow> addr \<Rightarrow> string \<Rightarrow> heap" where
  "warm h a key = (case proxy_get h a key of Some (ps, h') \<Rightarrow> h' | None \<Rightarrow> h)"

text \<open>
  The entries of the returned dictionary and the objects that existed before the call as
  the call leaves them, as functions of the store before the call. The lemmas below prove
  that \<open>get_dict\<close> returns the one and leaves the other; two calls in different stores are
  compared through them. The groups are serialised after the read of \<^verbatim>\<open>self.groups\<close>, and
  each role in the store that the roles before it left.
\<close>

definition Group_content :: "heap \<Rightarrow> addr \<Rightarrow> dict" where
  "Group_content h g = keep (the_list h Model_default) (the_attrs h g)"

definition Role_touched :: "heap \<Rightarrow> addr \<Rightarrow> val list \<Rightarrow> heap" where
  "Role_touched h self xs = (if VStr ''groups'' \<in> set xs then h else warm h self groups_key)"

definition Role_content :: "heap \<Rightarrow> addr \<Rightarrow> val list \<Rightarrow> dict" where
  "Role_content h self xs =
     (if VStr ''groups'' \<in> set xs then keep xs (the_attrs h self)
      else AList.update ''groups''
             (VList (map (\<lambda>g. VDict (Group_content (warm h self groups_key) g)) (the_proxy h self)))
             (keep xs (the_attrs h self)))"

fun role_dicts :: "heap \<Rightarrow> addr list \<Rightarrow> val list" where
  "role_dicts h [] = []"
| "role_dicts h (r # rs) =
     VDict (Role_content h r (the_list h Role_default))
       # role_dicts (Role_touched h r (the_list h Role_default)) rs"

fun roles_touched :: "heap \<Rightarrow> addr list \<Rightarrow> heap" where
  "roles_touched h [] = h"
| "roles_touched h (r # rs) = roles_touched (Role_touched h r (the_list h Role_default)) rs"

definition Employee_touched :: "heap \<Rightarrow> addr \<Rightarrow> val list \<Rightarrow> heap" where
  "Employee_touched h self xs =
     (if VStr ''roles'' \<in> set xs then h
      else roles_touched (warm h self roles_key) (the_proxy h self))"

definition Employee_content :: "heap \<Rightarrow> addr \<Rightarrow> val list \<Rightarrow> dict" where
  "Employee_content h self xs =
     (if VStr ''roles'' \<in> set xs then keep xs (the_attrs h self)
      else AList.update ''roles''
             (VList (role_dicts (warm h self roles_key) (the_proxy h self)))
             (keep xs (the_attrs h self)))"

definition content :: "kind \<Rightarrow> heap \<Rightarrow> addr \<Rightarrow> val list \<Rightarrow> dict" where
  "content k h self xs =
     (case k of
        Employee \<Rightarrow> Employee_content h self xs
      | Role \<Rightarrow> Role_content h self xs
      | App \<Rightarrow> keep (xs @ [VStr ''token'']) (the_attrs h self)
      | _ \<Rightarrow> keep xs (the_attrs h self))"

definition touched :: "kind \<Rightarrow> heap \<Rightarrow> addr \<Rightarrow> addr \<Rightarrow> val list \<Rightarrow> heap" where
  "touched k h self e xs =
     (case k of
        App \<Rightarrow> h[e := PyList (xs @ [VStr ''token''])]
      | Employee \<Rightarrow> Employee_touched h self xs
      | Role \<Rightarrow> Role_touched h self xs
      | _ \<Rightarrow> h)"

text \<open>
  While an Employee is serialised, the objects that existed before change in one way only:
  the \<^verbatim>\<open>__dict__\<close> of a role gets the proxy's entry. \<open>evolved h rs gs H\<close>: \<open>H\<close> is \<open>h\<close>
  up to that, for the roles \<open>rs\<close> and the groups \<open>gs\<close>.
\<close>

definition evolved :: "heap \<Rightarrow> addr list \<Rightarrow> addr list \<Rightarrow> heap \<Rightarrow> bool" where
  "evolved h rs gs H =
     (length H = length h
      \<and> (\<forall>b. list_at H b = list_at h b)
      \<and> (\<forall>b. inst_at H b = inst_at h b)
      \<and> (\<forall>g\<in>set gs. attrs H g = attrs h g)
      \<and> (\<forall>r\<in>set rs. attrs H r = attrs h r
              \<or> attrs H r = Some (AList.update groups_key (VProxy r) (the_attrs h r))))"

section \<open>A store with a record of each class that the examples use\<close>

text \<open>
  After the four default lists: a Group (at 5), a Role with that group (7), an Employee
  with that role (9), an App (11), three exclusion lists (12, 13, 14) and a second App
  that differs from the first in its token only (16); then a set of names (17),
  \<^verbatim>\<open>None\<close> (18), an Employee with an association row that has no role (20) and an
  Employee associated twice with the role at 7 (22). \<open>example_warm\<close> is the store after
  the Employee at 9 has been serialised once.
\<close>

definition example_heap :: heap where
  "example_heap = heap0 @
     [PyDict [(''id'', VInt 7), (''name'', VStr ''chat''), (''app_group_id'', VStr ''G1''), (''app_id'', VInt 1)],
      Inst 4 [],
      PyDict [(''id'', VInt 2), (''name'', VStr ''admin''), (''description'', VStr ''d'')],
      Inst 6 [5],
      PyDict [(''id'', VInt 1), (''email'', VStr ''a@x.com''), (''first_name'', VStr ''A''),
              (''last_name'', VStr ''B''), (''slack_id'', VStr '''')],
      Inst 8 [7],
      PyDict [(''id'', VInt 1), (''name'', VStr ''Slack''), (''token'', VStr ''secret123'')],
      Inst 10 [],
      PyList [VStr ''id'', VStr ''nickname''],
      PyList [VStr ''id''],
      PyList [],
      PyDict [(''id'', VInt 1), (''name'', VStr ''Slack''), (''token'', VStr ''other'')],
      Inst 15 [],
      PySet [VStr ''id''],
      PyNone,
      PyDict [(''id'', VInt 2), (''email'', VStr ''c@x.com'')],
      Inst 19 [18],
      PyDict [(''id'', VInt 3), (''email'', VStr ''d@x.com'')],
      Inst 21 [7, 7]]"

definition example_warm :: heap where
  "example_warm =
     (case get_dict_empty Employee example_heap 9 of Some (r, h1) \<Rightarrow> h1 | None \<Rightarrow> example_heap)"

section \<open>The store grows at its end\<close>

lemma lookup_prefix: "prefix h h' \<Longrightarrow> lookup h a = Some ob \<Longrightarrow> lookup h' a = Some ob"
  by (auto simp: lookup_def prefix_def nth_append split: if_splits)

lemma list_at_prefix: "prefix h h' \<Longrightarrow> list_at h a = Some xs \<Longrightarrow> list_at h' a = Some xs"
  by (auto simp: list_at_def split: option.splits obj.splits dest: lookup_prefix)

lemma members_prefix: "prefix h h' \<Longrightarrow> members h a = Some xs \<Longrightarrow> members h' a = Some xs"
  by (auto simp: members_def split: option.splits obj.splits dest: lookup_prefix)

lemma dict_at_prefix: "prefix h h' \<Longrightarrow> dict_at h a = Some m \<Longrightarrow> dict_at h' a = Some m"
  by (auto simp: dict_at_def split: option.splits obj.splits dest: lookup_prefix)

lemma inst_at_prefix: "prefix h h' \<Longrightarrow> inst_at h a = Some p \<Longrightarrow> inst_at h' a = Some p"
  by (auto simp: inst_at_def split: option.splits obj.splits dest: lookup_prefix)

lemma proxy_prefix: "prefix h h' \<Longrightarrow> proxy h a = Some ps \<Longrightarrow> proxy h' a = Some ps"
  by (auto simp: proxy_def dest: inst_at_prefix)

lemma attrs_prefix: "prefix h h' \<Longrightarrow> attrs h a = Some m \<Longrightarrow> attrs h' a = Some m"
  by (auto simp: attrs_def dict_of_def bind_eq_Some_conv dest: inst_at_prefix dict_at_prefix)

lemma prefix_update: "prefix h h' \<Longrightarrow> length h \<le> r \<Longrightarrow> prefix h (h'[r := ob])"
  by (auto simp: prefix_def list_update_append)

lemma dict_at_last: "dict_at (h @ [PyDict m]) (length h) = Some m"
  by (simp add: dict_at_def lookup_def)

lemma dict_at_SomeD: "dict_at h d = Some m \<Longrightarrow> d < length h"
  by (auto simp: dict_at_def lookup_def split: if_splits)

lemma list_at_SomeD: "list_at h e = Some xs \<Longrightarrow> e < length h \<and> h ! e = PyList xs"
  by (auto simp: list_at_def lookup_def split: if_splits obj.splits)

lemma inst_at_SomeD: "inst_at h a = Some (d, ps) \<Longrightarrow> a < length h \<and> h ! a = Inst d ps"
  by (auto simp: inst_at_def lookup_def split: if_splits obj.splits)

lemma list_at_members: "list_at h e = Some xs \<Longrightarrow> members h e = Some xs"
  by (auto simp: list_at_def members_def split: option.splits obj.splits)

lemma dict_update_eq: "dict_at h d = Some m \<Longrightarrow> dict_update h d k v = Some (h[d := PyDict (AList.update k v m)])"
  by (simp add: dict_update_def)

lemma dict_at_update_same: "d < length h \<Longrightarrow> dict_at (h[d := PyDict m]) d = Some m"
  by (simp add: dict_at_def lookup_def)

subsection \<open>Writing to a list leaves instances and dictionaries as they are\<close>

lemma lookup_list_update:
  "lookup (h[e := ob]) a = (if a = e \<and> e < length h then Some ob else lookup h a)"
  by (simp add: lookup_def)

lemma dict_at_list_update: "list_at h e = Some xs \<Longrightarrow> dict_at (h[e := PyList ys]) a = dict_at h a"
  by (auto simp: dict_at_def lookup_list_update list_at_def split: option.splits obj.splits)

lemma inst_at_list_update: "list_at h e = Some xs \<Longrightarrow> inst_at (h[e := PyList ys]) a = inst_at h a"
  by (auto simp: inst_at_def lookup_list_update list_at_def split: option.splits obj.splits)

lemma attrs_list_update: "list_at h e = Some xs \<Longrightarrow> attrs (h[e := PyList ys]) a = attrs h a"
  by (simp add: attrs_def dict_of_def inst_at_list_update dict_at_list_update)

lemma list_at_list_update: "list_at h e = Some xs \<Longrightarrow> list_at (h[e := PyList ys]) e = Some ys"
  using list_at_SomeD [of h e xs] by (simp add: list_at_def lookup_list_update)

subsection \<open>Writing to a dictionary leaves instances and lists as they are\<close>

lemma list_at_dict_update: "dict_at h d = Some m \<Longrightarrow> list_at (h[d := PyDict m']) a = list_at h a"
  by (auto simp: list_at_def lookup_list_update dict_at_def split: option.splits obj.splits)

lemma inst_at_dict_update: "dict_at h d = Some m \<Longrightarrow> inst_at (h[d := PyDict m']) a = inst_at h a"
  by (auto simp: inst_at_def lookup_list_update dict_at_def split: option.splits obj.splits)

lemma dict_at_dict_update:
  "dict_at h d = Some m \<Longrightarrow> dict_at (h[d := PyDict m']) a = (if a = d then Some m' else dict_at h a)"
  by (auto simp: dict_at_def lookup_list_update lookup_def split: option.splits obj.splits if_splits)

subsection \<open>The read of a proxy\<close>

lemma inst_okE:
  assumes "inst_ok h a"
  obtains d ps m where "inst_at h a = Some (d, ps)" and "dict_at h d = Some m"
  using assms by (auto simp: inst_ok_def attrs_def dict_of_def bind_eq_Some_conv)

lemma inst_okI: "inst_at h a = Some (d, ps) \<Longrightarrow> dict_at h d = Some m \<Longrightarrow> inst_ok h a"
  by (simp add: inst_ok_def attrs_def dict_of_def)

lemma proxy_get_eq:
  assumes "inst_at h a = Some (d, ps)" and "dict_at h d = Some m"
  shows "proxy_get h a key =
     Some (ps, if map_of m key = Some (VProxy a) then h
               else h[d := PyDict (AList.update key (VProxy a) m)])"
  using assms
  by (simp add: proxy_get_def proxy_def attrs_def dict_of_def setattr_def dict_update_def)

lemma warm_eq:
  assumes "inst_at h a = Some (d, ps)" and "dict_at h d = Some m"
  shows "warm h a key =
     (if map_of m key = Some (VProxy a) then h else h[d := PyDict (AList.update key (VProxy a) m)])"
  by (simp add: warm_def proxy_get_eq [OF assms])

lemma warm_not_ok: "\<not> inst_ok h a \<Longrightarrow> warm h a key = h"
  by (auto simp: warm_def proxy_get_def inst_ok_def proxy_def attrs_def dict_of_def
      split: option.splits bind_splits)

lemma warm_cases:
  obtains "warm h a key = h"
  | d ps m where "inst_at h a = Some (d, ps)" and "dict_at h d = Some m"
      and "warm h a key = h[d := PyDict (AList.update key (VProxy a) m)]"
proof (cases "inst_ok h a")
  case True
  then obtain d ps m where *: "inst_at h a = Some (d, ps)" "dict_at h d = Some m"
    by (rule inst_okE)
  with warm_eq [OF *, of key] that show ?thesis by (cases "map_of m key = Some (VProxy a)") auto
next
  case False
  with warm_not_ok that show ?thesis by blast
qed

lemma proxy_get_warm: "inst_ok h a \<Longrightarrow> proxy_get h a key = Some (the_proxy h a, warm h a key)"
  by (erule inst_okE) (simp add: proxy_get_eq warm_eq the_proxy_def proxy_def)

lemma length_warm [simp]: "length (warm h a key) = length h"
  by (rule warm_cases [of h a key]) simp_all

lemma list_at_warm [simp]: "list_at (warm h a key) b = list_at h b"
  by (rule warm_cases [of h a key]) (simp_all add: list_at_dict_update)

lemma inst_at_warm [simp]: "inst_at (warm h a key) b = inst_at h b"
  by (rule warm_cases [of h a key]) (simp_all add: inst_at_dict_update)

lemma proxy_warm [simp]: "proxy (warm h a key) b = proxy h b"
  by (simp add: proxy_def)

lemma dict_of_warm [simp]: "dict_of (warm h a key) b = dict_of h b"
  by (simp add: dict_of_def)

lemma the_proxy_warm [simp]: "the_proxy (warm h a key) b = the_proxy h b"
  by (simp add: the_proxy_def)

lemma the_list_warm [simp]: "the_list (warm h a key) b = the_list h b"
  by (simp add: the_list_def)

lemma dict_at_warm_None [simp]: "dict_at (warm h a key) b = None \<longleftrightarrow> dict_at h b = None"
  by (rule warm_cases [of h a key]) (auto simp: dict_at_dict_update)

lemma dict_at_warm_other: "dict_of h a \<noteq> Some b \<Longrightarrow> dict_at (warm h a key) b = dict_at h b"
  by (rule warm_cases [of h a key]) (auto simp: dict_at_dict_update dict_of_def)

lemma inst_ok_warm [simp]: "inst_ok (warm h a key) b = inst_ok h b"
  by (auto simp: inst_ok_def attrs_def bind_eq_None_conv)

lemma role_ok_warm [simp]: "role_ok (warm h a key) b = role_ok h b"
  by (simp add: role_ok_def list_all_iff)

lemma employee_ok_warm [simp]: "employee_ok (warm h a key) b = employee_ok h b"
  by (simp add: employee_ok_def list_all_iff)

lemma attrs_warm_other:
  "dict_of h b \<noteq> dict_of h a \<Longrightarrow> attrs (warm h a key) b = attrs h b"
  by (cases "dict_of h b") (auto simp: attrs_def dict_at_warm_other)

lemma the_attrs_warm_other:
  "dict_of h b \<noteq> dict_of h a \<Longrightarrow> the_attrs (warm h a key) b = the_attrs h b"
  by (simp add: the_attrs_def attrs_warm_other)

lemma warm_cached: "cached h a key \<Longrightarrow> warm h a key = h"
proof (cases "inst_ok h a")
  case True
  assume c: "cached h a key"
  from True obtain d ps m where *: "inst_at h a = Some (d, ps)" "dict_at h d = Some m"
    by (rule inst_okE)
  then have "the_attrs h a = m" by (simp add: the_attrs_def attrs_def dict_of_def)
  with c show ?thesis by (simp add: warm_eq [OF *] cached_def)
next
  case False
  then show ?thesis by (rule warm_not_ok)
qed

lemma attrs_warm_self:
  assumes "inst_ok h a"
  shows "attrs (warm h a key) a =
     Some (if cached h a key then the_attrs h a else AList.update key (VProxy a) (the_attrs h a))"
proof -
  from assms obtain d ps m where *: "inst_at h a = Some (d, ps)" "dict_at h d = Some m"
    by (rule inst_okE)
  then have m: "the_attrs h a = m" by (simp add: the_attrs_def attrs_def dict_of_def)
  show ?thesis
    using * m by (simp add: warm_eq [OF *] cached_def attrs_def dict_of_def
        inst_at_dict_update dict_at_dict_update)
qed

lemma cached_warm: "inst_ok h a \<Longrightarrow> cached (warm h a key) a key"
  by (simp add: cached_def the_attrs_def attrs_warm_self update_conv')

lemma warm_append:
  assumes "inst_ok h a"
  shows "warm (h @ ext) a key = warm h a key @ ext"
proof -
  from assms obtain d ps m where *: "inst_at h a = Some (d, ps)" "dict_at h d = Some m"
    by (rule inst_okE)
  have p: "prefix h (h @ ext)" by simp
  have **: "inst_at (h @ ext) a = Some (d, ps)" "dict_at (h @ ext) d = Some m"
    using inst_at_prefix [OF p *(1)] dict_at_prefix [OF p *(2)] by simp_all
  show ?thesis
    using dict_at_SomeD [OF *(2)]
    by (simp add: warm_eq [OF *] warm_eq [OF **] list_update_append)
qed

subsection \<open>Well-formedness is kept when the store grows\<close>

lemma inst_ok_proxy: "inst_ok h a \<Longrightarrow> proxy h a = Some (the_proxy h a)"
  by (auto simp: inst_ok_def attrs_def dict_of_def proxy_def the_proxy_def bind_eq_Some_conv)

lemma inst_ok_attrs: "inst_ok h a \<Longrightarrow> attrs h a = Some (the_attrs h a)"
  by (auto simp: inst_ok_def the_attrs_def)

lemma the_attrs_prefix: "prefix h h' \<Longrightarrow> inst_ok h a \<Longrightarrow> the_attrs h' a = the_attrs h a"
  by (auto simp: inst_ok_def the_attrs_def dest: attrs_prefix)

lemma the_proxy_prefix: "prefix h h' \<Longrightarrow> inst_ok h a \<Longrightarrow> the_proxy h' a = the_proxy h a"
  using inst_ok_proxy [of h a] proxy_prefix [of h h' a] by (simp add: the_proxy_def)

lemma inst_ok_prefix: "prefix h h' \<Longrightarrow> inst_ok h a \<Longrightarrow> inst_ok h' a"
  by (auto simp: inst_ok_def dest: attrs_prefix)

lemma the_list_prefix: "prefix h h' \<Longrightarrow> list_at h a \<noteq> None \<Longrightarrow> the_list h' a = the_list h a"
  by (auto simp: the_list_def dest: list_at_prefix)

lemma list_all_inst_ok_prefix: "prefix h h' \<Longrightarrow> list_all (inst_ok h) gs \<Longrightarrow> list_all (inst_ok h') gs"
  by (auto simp: list_all_iff dest: inst_ok_prefix)

lemma role_ok_prefix: "prefix h h' \<Longrightarrow> role_ok h a \<Longrightarrow> role_ok h' a"
  using list_at_prefix [of h h' Model_default]
  by (auto simp: role_ok_def the_proxy_prefix dest: inst_ok_prefix list_all_inst_ok_prefix)

lemma employee_ok_prefix: "prefix h h' \<Longrightarrow> employee_ok h a \<Longrightarrow> employee_ok h' a"
  using list_at_prefix [of h h' Role_default]
  by (auto simp: employee_ok_def the_proxy_prefix list_all_iff dest: inst_ok_prefix role_ok_prefix)

lemma cached_prefix: "prefix h h' \<Longrightarrow> inst_ok h a \<Longrightarrow> cached h' a key = cached h a key"
  by (simp add: cached_def the_attrs_prefix)

lemma Group_content_prefix:
  "prefix h h' \<Longrightarrow> inst_ok h g \<Longrightarrow> list_at h Model_default \<noteq> None \<Longrightarrow> Group_content h' g = Group_content h g"
  by (simp add: Group_content_def the_attrs_prefix the_list_prefix)

lemma Role_touched_append:
  "inst_ok h a \<Longrightarrow> Role_touched (h @ ext) a xs = Role_touched h a xs @ ext"
  by (simp add: Role_touched_def warm_append)

lemma length_Role_touched [simp]: "length (Role_touched h a xs) = length h"
  by (simp add: Role_touched_def)

lemma list_at_Role_touched [simp]: "list_at (Role_touched h a xs) b = list_at h b"
  by (simp add: Role_touched_def)

lemma the_list_Role_touched [simp]: "the_list (Role_touched h a xs) b = the_list h b"
  by (simp add: the_list_def)

lemma role_ok_Role_touched [simp]: "role_ok (Role_touched h a xs) b = role_ok h b"
  by (simp add: Role_touched_def)

lemma Role_content_prefix:
  assumes "prefix h h'" and "role_ok h a"
  shows "Role_content h' a xs = Role_content h a xs"
proof -
  from assms(2) have i: "inst_ok h a" and g: "list_all (inst_ok h) (the_proxy h a)"
    and m: "list_at h Model_default \<noteq> None" by (simp_all add: role_ok_def)
  from assms(1) obtain ext where h': "h' = h @ ext" by (auto simp: prefix_def)
  have p: "prefix (warm h a groups_key) (warm h' a groups_key)"
    by (simp add: h' warm_append [OF i])
  have eq: "map (\<lambda>g. VDict (Group_content (warm h' a groups_key) g)) (the_proxy h a)
          = map (\<lambda>g. VDict (Group_content (warm h a groups_key) g)) (the_proxy h a)"
    using g m Group_content_prefix [OF p] by (simp add: list_all_iff)
  show ?thesis
    unfolding Role_content_def the_attrs_prefix [OF assms(1) i] the_proxy_prefix [OF assms(1) i] eq
    by (rule refl)
qed

lemma length_roles_touched [simp]: "length (roles_touched h rs) = length h"
  by (induction rs arbitrary: h) simp_all

lemma list_at_roles_touched [simp]: "list_at (roles_touched h rs) b = list_at h b"
  by (induction rs arbitrary: h) simp_all

lemma roles_touched_append:
  "list_all (role_ok h) rs \<Longrightarrow> list_at h Role_default \<noteq> None
     \<Longrightarrow> roles_touched (h @ ext) rs = roles_touched h rs @ ext"
proof (induction rs arbitrary: h)
  case Nil
  then show ?case by simp
next
  case (Cons r rs)
  then have i: "inst_ok h r" by (simp add: role_ok_def)
  have l: "the_list (h @ ext) Role_default = the_list h Role_default"
    using Cons.prems(2) by (intro the_list_prefix) simp_all
  show ?case
    using Cons.prems Cons.IH [of "Role_touched h r (the_list h Role_default)"]
    by (simp add: l Role_touched_append [OF i] list_all_iff)
qed

lemma role_dicts_prefix:
  "prefix h h' \<Longrightarrow> list_all (role_ok h) rs \<Longrightarrow> list_at h Role_default \<noteq> None
     \<Longrightarrow> role_dicts h' rs = role_dicts h rs"
proof (induction rs arbitrary: h h')
  case Nil
  then show ?case by simp
next
  case (Cons r rs)
  then have ok: "role_ok h r" and i: "inst_ok h r" by (simp_all add: role_ok_def)
  from Cons.prems(1) obtain ext where h': "h' = h @ ext" by (auto simp: prefix_def)
  have l: "the_list h' Role_default = the_list h Role_default"
    using Cons.prems(1,3) by (rule the_list_prefix)
  let ?ys = "the_list h Role_default"
  have p: "prefix (Role_touched h r ?ys) (Role_touched h' r ?ys)"
    by (simp add: h' Role_touched_append [OF i])
  have "role_dicts (Role_touched h' r ?ys) rs = role_dicts (Role_touched h r ?ys) rs"
    using p Cons.prems by (intro Cons.IH) (simp_all add: list_all_iff)
  then show ?case
    by (simp add: l Role_content_prefix [OF Cons.prems(1) ok])
qed

lemma length_role_dicts [simp]: "length (role_dicts h rs) = length rs"
  by (induction rs arbitrary: h) simp_all

lemma Employee_content_prefix:
  assumes "prefix h h'" and "employee_ok h a"
  shows "Employee_content h' a xs = Employee_content h a xs"
proof -
  from assms(2) have i: "inst_ok h a" and r: "list_all (role_ok h) (the_proxy h a)"
    and d: "list_at h Role_default \<noteq> None" by (simp_all add: employee_ok_def)
  from assms(1) obtain ext where h': "h' = h @ ext" by (auto simp: prefix_def)
  have p: "prefix (warm h a roles_key) (warm h' a roles_key)"
    by (simp add: h' warm_append [OF i])
  have eq: "role_dicts (warm h' a roles_key) (the_proxy h a) = role_dicts (warm h a roles_key) (the_proxy h a)"
    using p r d by (intro role_dicts_prefix) (simp_all add: list_all_iff)
  show ?thesis
    unfolding Employee_content_def the_attrs_prefix [OF assms(1) i] the_proxy_prefix [OF assms(1) i] eq
    by (rule refl)
qed

lemma Employee_touched_append:
  assumes "employee_ok h a"
  shows "Employee_touched (h @ ext) a xs = Employee_touched h a xs @ ext"
proof -
  from assms have i: "inst_ok h a" and r: "list_all (role_ok h) (the_proxy h a)"
    and d: "list_at h Role_default \<noteq> None" by (simp_all add: employee_ok_def)
  have p: "the_proxy (h @ ext) a = the_proxy h a"
    using i by (intro the_proxy_prefix) simp_all
  show ?thesis
    using r d
    by (simp add: Employee_touched_def p warm_append [OF i] roles_touched_append list_all_iff)
qed

section \<open>What each \<^verbatim>\<open>get_dict\<close> returns\<close>

subsection \<open>\<^verbatim>\<open>Model.get_dict\<close>\<close>

lemma Model_get_dict_eq:
  assumes "attrs h self = Some m" and "members h excludes = Some xs"
  shows "Model_get_dict h self excludes = Some (length h, h @ [PyDict (keep xs m)])"
proof -
  from assms(1) obtain d where d: "dict_of h self = Some d" and m: "dict_at h d = Some m"
    by (auto simp: attrs_def bind_eq_Some_conv)
  have c: "dict_copy h d = Some (length h, h @ [PyDict m])"
    using m by (simp add: dict_copy_def alloc_def)
  have l: "members (h @ [PyDict m]) excludes = Some xs"
    using assms(2) by (rule members_prefix [rotated]) simp
  show ?thesis
    by (simp add: Model_get_dict_def d c filter_dictionary_def dict_at_last l keep_def)
qed

lemma Model_get_dict_ok:
  assumes "inst_ok h self" and "members h excludes = Some xs"
  shows "\<exists>h'. Model_get_dict h self excludes = Some (length h, h') \<and> prefix h h'
           \<and> dict_at h' (length h) = Some (keep xs (the_attrs h self))"
  using Model_get_dict_eq [OF inst_ok_attrs [OF assms(1)] assms(2)] by (simp add: dict_at_last)

subsection \<open>The list comprehension\<close>

lemma get_dict_each_eq:
  assumes "\<And>h' x. prefix h h' \<Longrightarrow> x \<in> set xs \<Longrightarrow>
     \<exists>h''. f h' x = Some (length h', h'') \<and> prefix h' h'' \<and> dict_at h'' (length h') = Some (c x)"
  shows "\<exists>h'. get_dict_each f h xs = Some (map (\<lambda>x. VDict (c x)) xs, h') \<and> prefix h h'"
  using assms
proof (induction xs arbitrary: h)
  case Nil
  then show ?case by simp
next
  case (Cons x xs)
  from Cons.prems [of h x] obtain h1 where
    f: "f h x = Some (length h, h1)" and p1: "prefix h h1" and d: "dict_at h1 (length h) = Some (c x)"
    by auto
  have "\<exists>h'. get_dict_each f h1 xs = Some (map (\<lambda>x. VDict (c x)) xs, h') \<and> prefix h1 h'"
  proof (rule Cons.IH)
    fix h' y assume "prefix h1 h'" and "y \<in> set xs"
    with p1 show "\<exists>h''. f h' y = Some (length h', h'') \<and> prefix h' h'' \<and> dict_at h'' (length h') = Some (c y)"
      using Cons.prems [of h' y] by (auto dest: prefix_order.trans)
  qed
  then obtain h2 where r: "get_dict_each f h1 xs = Some (map (\<lambda>x. VDict (c x)) xs, h2)"
    and p2: "prefix h1 h2" by auto
  from p1 p2 have "prefix h h2" by (rule prefix_order.trans)
  with f d r show ?case by simp
qed

lemma groups_get_dict:
  assumes "list_all (inst_ok h) gs" and "list_at h Model_default \<noteq> None"
  shows "\<exists>h'. get_dict_each (\<lambda>h group. Model_get_dict h group Model_default) h gs
            = Some (map (\<lambda>g. VDict (Group_content h g)) gs, h') \<and> prefix h h'"
proof (rule get_dict_each_eq)
  fix h' g assume p: "prefix h h'" and g: "g \<in> set gs"
  from assms(1) g have ok: "inst_ok h g" by (simp add: list_all_iff)
  from p ok have ok': "inst_ok h' g" by (rule inst_ok_prefix)
  from assms(2) have "list_at h' Model_default = Some (the_list h Model_default)"
    using list_at_prefix [OF p] by (auto simp: the_list_def)
  then have l: "members h' Model_default = Some (the_list h Model_default)"
    by (rule list_at_members)
  show "\<exists>h''. Model_get_dict h' g Model_default = Some (length h', h'') \<and> prefix h' h''
          \<and> dict_at h'' (length h') = Some (Group_content h g)"
    using Model_get_dict_ok [OF ok' l] the_attrs_prefix [OF p ok] by (simp add: Group_content_def)
qed

subsection \<open>\<^verbatim>\<open>Role.get_dict\<close>\<close>

lemma Role_get_dict_ok:
  assumes ok: "role_ok h self" and xs: "members h excludes = Some xs"
  shows "\<exists>h'. Role_get_dict h self excludes = Some (length h, h')
           \<and> prefix (Role_touched h self xs) h'
           \<and> dict_at h' (length h) = Some (Role_content h self xs)"
proof -
  from ok have iok: "inst_ok h self" and gok: "list_all (inst_ok h) (the_proxy h self)"
    and md: "list_at h Model_default \<noteq> None" by (simp_all add: role_ok_def)
  let ?c = "PyDict (keep xs (the_attrs h self))"
  let ?h1 = "h @ [?c]"
  have m: "Model_get_dict h self excludes = Some (length h, ?h1)"
    using Model_get_dict_eq [OF inst_ok_attrs [OF iok] xs] .
  have p1: "prefix h ?h1" by simp
  have c: "contains ?h1 excludes ''groups'' = Some (VStr ''groups'' \<in> set xs)"
    using members_prefix [OF p1 xs] by (simp add: contains_def)
  show ?thesis
  proof (cases "VStr ''groups'' \<in> set xs")
    case True
    with m c show ?thesis
      by (simp add: Role_get_dict_def Role_content_def Role_touched_def dict_at_last)
  next
    case False
    let ?w = "warm h self groups_key"
    let ?h2 = "?w @ [?c]"
    have iok1: "inst_ok ?h1 self" using p1 iok by (rule inst_ok_prefix)
    have px: "proxy_get ?h1 self groups_key = Some (the_proxy h self, ?h2)"
      using proxy_get_warm [OF iok1] the_proxy_prefix [OF p1 iok] by (simp add: warm_append [OF iok])
    have pw: "prefix ?w ?h2" by simp
    have gok2: "list_all (inst_ok ?h2) (the_proxy h self)"
      using gok inst_ok_prefix [OF pw] by (simp add: list_all_iff)
    have md2: "list_at ?h2 Model_default \<noteq> None"
      using md list_at_prefix [OF pw, of Model_default] by auto
    from groups_get_dict [OF gok2 md2] obtain h3 where
      g: "get_dict_each (\<lambda>h group. Model_get_dict h group Model_default) ?h2 (the_proxy h self)
            = Some (map (\<lambda>g. VDict (Group_content ?h2 g)) (the_proxy h self), h3)"
      and p3: "prefix ?h2 h3" by auto
    have same: "map (\<lambda>g. VDict (Group_content ?h2 g)) (the_proxy h self)
              = map (\<lambda>g. VDict (Group_content ?w g)) (the_proxy h self)"
      using gok md Group_content_prefix [OF pw] by (simp add: list_all_iff)
    have d2: "dict_at ?h2 (length h) = Some (keep xs (the_attrs h self))"
      using dict_at_last [of ?w] by simp
    have d3: "dict_at h3 (length h) = Some (keep xs (the_attrs h self))"
      using dict_at_prefix [OF p3 d2] .
    let ?h4 = "h3[length h := PyDict (Role_content h self xs)]"
    have u: "dict_update h3 (length h) ''groups''
               (VList (map (\<lambda>g. VDict (Group_content ?w g)) (the_proxy h self))) = Some ?h4"
      using dict_update_eq [OF d3] False by (simp add: Role_content_def)
    have p4: "prefix ?w ?h4"
      using prefix_order.trans [OF pw p3] by (rule prefix_update) simp
    have d4: "dict_at ?h4 (length h) = Some (Role_content h self xs)"
      using dict_at_SomeD [OF d3] by (rule dict_at_update_same)
    show ?thesis
      using m c False px g same u p4 d4 by (simp add: Role_get_dict_def Role_touched_def)
  qed
qed

lemma roles_get_dict:
  assumes "list_all (role_ok h) rs" and "list_at h Role_default \<noteq> None"
  shows "\<exists>h'. get_dict_each (\<lambda>h role. Role_get_dict h role Role_default) (h @ ext) rs
            = Some (role_dicts h rs, h') \<and> prefix (roles_touched h rs @ ext) h'"
  using assms
proof (induction rs arbitrary: h ext)
  case Nil
  then show ?case by simp
next
  case (Cons r rs)
  let ?ys = "the_list h Role_default"
  let ?t = "Role_touched h r ?ys"
  from Cons.prems have ok: "role_ok h r" and i: "inst_ok h r" by (simp_all add: role_ok_def)
  have p: "prefix h (h @ ext)" by simp
  have ok': "role_ok (h @ ext) r" using p ok by (rule role_ok_prefix)
  have "list_at (h @ ext) Role_default = Some ?ys"
    using Cons.prems(2) list_at_prefix [OF p, of Role_default] by (auto simp: the_list_def)
  then have l: "members (h @ ext) Role_default = Some ?ys" by (rule list_at_members)
  from Role_get_dict_ok [OF ok' l] obtain h1 where
    f: "Role_get_dict (h @ ext) r Role_default = Some (length (h @ ext), h1)"
    and p1: "prefix (Role_touched (h @ ext) r ?ys) h1"
    and d1: "dict_at h1 (length (h @ ext)) = Some (Role_content (h @ ext) r ?ys)" by blast
  from p1 obtain more where h1: "h1 = ?t @ (ext @ more)"
    by (auto simp: prefix_def Role_touched_append [OF i])
  have c: "Role_content (h @ ext) r ?ys = Role_content h r ?ys"
    using p ok by (rule Role_content_prefix)
  from Cons.IH [of ?t "ext @ more"] Cons.prems obtain h2 where
    r: "get_dict_each (\<lambda>h role. Role_get_dict h role Role_default) (?t @ ext @ more) rs
          = Some (role_dicts ?t rs, h2)"
    and p2: "prefix (roles_touched ?t rs @ ext @ more) h2"
    by (auto simp: list_all_iff)
  have "prefix (roles_touched ?t rs @ ext) h2"
    using p2 by (auto simp: prefix_def)
  with f d1 c r h1 show ?case by simp
qed

subsection \<open>\<^verbatim>\<open>Employee.get_dict\<close>\<close>

lemma Employee_get_dict_ok:
  assumes ok: "employee_ok h self" and xs: "members h excludes = Some xs"
  shows "\<exists>h'. Employee_get_dict h self excludes = Some (length h, h')
           \<and> prefix (Employee_touched h self xs) h'
           \<and> dict_at h' (length h) = Some (Employee_content h self xs)"
proof -
  from ok have iok: "inst_ok h self" and rok: "list_all (role_ok h) (the_proxy h self)"
    and rd: "list_at h Role_default \<noteq> None" by (simp_all add: employee_ok_def)
  let ?c = "PyDict (keep xs (the_attrs h self))"
  let ?h1 = "h @ [?c]"
  have m: "Model_get_dict h self excludes = Some (length h, ?h1)"
    using Model_get_dict_eq [OF inst_ok_attrs [OF iok] xs] .
  have p1: "prefix h ?h1" by simp
  have c: "contains ?h1 excludes ''roles'' = Some (VStr ''roles'' \<in> set xs)"
    using members_prefix [OF p1 xs] by (simp add: contains_def)
  show ?thesis
  proof (cases "VStr ''roles'' \<in> set xs")
    case True
    with m c show ?thesis
      by (simp add: Employee_get_dict_def Employee_content_def Employee_touched_def dict_at_last)
  next
    case False
    let ?w = "warm h self roles_key"
    let ?rs = "the_proxy h self"
    let ?t = "roles_touched ?w ?rs"
    have iok1: "inst_ok ?h1 self" using p1 iok by (rule inst_ok_prefix)
    have px: "proxy_get ?h1 self roles_key = Some (?rs, ?w @ [?c])"
      using proxy_get_warm [OF iok1] the_proxy_prefix [OF p1 iok] by (simp add: warm_append [OF iok])
    have rokw: "list_all (role_ok ?w) ?rs" using rok by (simp add: list_all_iff)
    have rdw: "list_at ?w Role_default \<noteq> None" using rd by simp
    from roles_get_dict [OF rokw rdw, of "[?c]"] obtain h3 where
      g: "get_dict_each (\<lambda>h role. Role_get_dict h role Role_default) (?w @ [?c]) ?rs
            = Some (role_dicts ?w ?rs, h3)"
      and p3: "prefix (?t @ [?c]) h3" by blast
    have "dict_at (?t @ [?c]) (length h) = Some (keep xs (the_attrs h self))"
      using dict_at_last [of ?t] by simp
    then have d3: "dict_at h3 (length h) = Some (keep xs (the_attrs h self))"
      by (rule dict_at_prefix [OF p3])
    let ?h4 = "h3[length h := PyDict (Employee_content h self xs)]"
    have u: "dict_update h3 (length h) ''roles'' (VList (role_dicts ?w ?rs)) = Some ?h4"
      using dict_update_eq [OF d3] False by (simp add: Employee_content_def)
    have "prefix ?t h3" using p3 by (auto simp: prefix_def)
    then have p4: "prefix ?t ?h4" by (rule prefix_update) simp
    have d4: "dict_at ?h4 (length h) = Some (Employee_content h self xs)"
      using dict_at_SomeD [OF d3] by (rule dict_at_update_same)
    show ?thesis
      using m c False px g u p4 d4 by (simp add: Employee_get_dict_def Employee_touched_def)
  qed
qed

subsection \<open>\<^verbatim>\<open>App.get_dict\<close>\<close>

lemma App_get_dict_eq:
  assumes ok: "inst_ok h self" and xs: "list_at h excludes = Some xs"
  shows "App_get_dict h self excludes =
     Some (length h, h[excludes := PyList (xs @ [VStr ''token''])]
                       @ [PyDict (keep (xs @ [VStr ''token'']) (the_attrs h self))])"
proof -
  let ?h1 = "h[excludes := PyList (xs @ [VStr ''token''])]"
  have a: "list_append h excludes (VStr ''token'') = Some ?h1"
    using xs by (simp add: list_append_def)
  have at: "attrs ?h1 self = Some (the_attrs h self)"
    using attrs_list_update [OF xs] inst_ok_attrs [OF ok] by simp
  have "list_at ?h1 excludes = Some (xs @ [VStr ''token''])"
    using xs by (rule list_at_list_update)
  then have l: "members ?h1 excludes = Some (xs @ [VStr ''token''])"
    by (rule list_at_members)
  show ?thesis
    using Model_get_dict_eq [OF at l] a by (simp add: App_get_dict_def)
qed

subsection \<open>All classes\<close>

lemma get_dict_ok:
  assumes ok: "record_ok k h self" and xs: "members h excludes = Some xs"
    and app: "k = App \<Longrightarrow> list_at h excludes = Some xs"
  shows "\<exists>h'. get_dict k h self excludes = Some (length h, h')
           \<and> prefix (touched k h self excludes xs) h'
           \<and> dict_at h' (length h) = Some (content k h self xs)"
proof (cases k)
  case Employee
  with ok have "employee_ok h self" by (simp add: record_ok_def)
  from Employee_get_dict_ok [OF this xs] Employee show ?thesis
    by (simp add: content_def touched_def)
next
  case Role
  with ok have "role_ok h self" by (simp add: record_ok_def)
  from Role_get_dict_ok [OF this xs] Role show ?thesis
    by (simp add: content_def touched_def)
next
  case App
  with ok have i: "inst_ok h self" by (simp add: record_ok_def)
  have d: "dict_at (h[excludes := PyList (xs @ [VStr ''token''])] @ [PyDict m]) (length h) = Some m" for m
    by (simp add: dict_at_def lookup_def nth_append)
  show ?thesis
    using App_get_dict_eq [OF i app [OF App]] App d
    by (simp add: content_def touched_def)
next
  case User
  with ok have i: "inst_ok h self" by (simp add: record_ok_def)
  from Model_get_dict_ok [OF i xs] User show ?thesis
    by (auto simp: content_def touched_def User_get_dict_def)
next
  case Group
  with ok have i: "inst_ok h self" by (simp add: record_ok_def)
  from Model_get_dict_ok [OF i xs] Group show ?thesis
    by (simp add: content_def touched_def)
next
  case EmployeeToRole
  with ok have i: "inst_ok h self" by (simp add: record_ok_def)
  from Model_get_dict_ok [OF i xs] EmployeeToRole show ?thesis
    by (simp add: content_def touched_def)
next
  case RoleToGroup
  with ok have i: "inst_ok h self" by (simp add: record_ok_def)
  from Model_get_dict_ok [OF i xs] RoleToGroup show ?thesis
    by (simp add: content_def touched_def)
qed

lemma dict_keys_keep: "dict_keys (keep xs m) = {k \<in> dict_keys m. VStr k \<notin> set xs}"
  by (auto simp: dict_keys_def keep_def image_iff)

lemma dict_keys_update: "dict_keys (AList.update k v m) = insert k (dict_keys m)"
  by (induction m) (auto simp: dict_keys_def)

lemma content_excluded:
  assumes "VStr key \<in> set xs"
  shows "key \<notin> dict_keys (content k h self xs)"
  using assms
  by (cases k) (auto simp: content_def Employee_content_def Role_content_def dict_keys_update
       dict_keys_keep)

lemma record_ok_prefix: "prefix h h' \<Longrightarrow> record_ok k h a \<Longrightarrow> record_ok k h' a"
  by (cases k) (auto simp: record_ok_def dest: inst_ok_prefix role_ok_prefix employee_ok_prefix)

lemma record_ok_inst_ok: "record_ok k h a \<Longrightarrow> inst_ok h a"
  by (cases k) (auto simp: record_ok_def role_ok_def employee_ok_def)

lemma content_prefix: "prefix h h' \<Longrightarrow> record_ok k h a \<Longrightarrow> content k h' a xs = content k h a xs"
  by (cases k) (auto simp: record_ok_def content_def the_attrs_prefix
        Role_content_prefix Employee_content_prefix)

lemma length_touched: "length (touched k h self e xs) = length h"
  by (cases k) (simp_all add: touched_def Employee_touched_def)

lemma inst_at_touched:
  "list_at h e = Some ys \<or> k \<noteq> App \<Longrightarrow> inst_at (touched k h self e xs) a = inst_at h a"
proof (cases k)
  case App
  assume "list_at h e = Some ys \<or> k \<noteq> App"
  with App show ?thesis by (auto simp: touched_def inst_at_list_update)
next
  case Employee
  have "inst_at (roles_touched H rs) a = inst_at H a" for H rs
    by (induction rs arbitrary: H) (simp_all add: Role_touched_def)
  with Employee show ?thesis by (simp add: touched_def Employee_touched_def)
qed (simp_all add: touched_def Role_touched_def)

lemma touched_append:
  "record_ok k h self \<Longrightarrow> k \<noteq> App \<Longrightarrow> touched k (h @ ext) self e xs = touched k h self e xs @ ext"
  by (cases k)
     (simp_all add: touched_def record_ok_def Employee_touched_append Role_touched_append role_ok_def)

lemma roles_touched_cached:
  "list_all (\<lambda>r. cached h r groups_key) rs \<Longrightarrow> roles_touched h rs = h"
  by (induction rs) (simp_all add: Role_touched_def warm_cached)

lemma warmed_touched: "warmed k h self \<Longrightarrow> k \<noteq> App \<Longrightarrow> touched k h self e xs = h"
  by (cases k)
     (simp_all add: touched_def warmed_def Employee_touched_def Role_touched_def warm_cached
        roles_touched_cached)

lemma warmed_prefix:
  assumes "prefix h h'" and "record_ok k h self" and "warmed k h self"
  shows "warmed k h' self"
proof (cases k)
  case Employee
  with assms(2) have i: "inst_ok h self" and r: "list_all (role_ok h) (the_proxy h self)"
    by (simp_all add: record_ok_def employee_ok_def)
  from r have "\<forall>r\<in>set (the_proxy h self). inst_ok h r" by (simp add: list_all_iff role_ok_def)
  with assms(3) Employee show ?thesis
    by (simp add: warmed_def cached_prefix [OF assms(1)] i the_proxy_prefix [OF assms(1) i] list_all_iff)
next
  case Role
  with assms(2) have i: "inst_ok h self" by (simp add: record_ok_def role_ok_def)
  with assms(3) Role show ?thesis
    by (simp add: warmed_def cached_prefix [OF assms(1)])
qed (simp_all add: warmed_def)

lemma get_dict_empty_ok:
  assumes ok: "record_ok k h self"
  shows "\<exists>h'. get_dict_empty k h self = Some (Suc (length h), h')
           \<and> prefix (if k = App then h else touched k h self e []) h'
           \<and> dict_at h' (Suc (length h)) = Some (content k h self [])"
proof -
  let ?h0 = "h @ [PyList []]"
  have p0: "prefix h ?h0" by simp
  have l: "list_at ?h0 (length h) = Some []" by (simp add: list_at_def lookup_def)
  from get_dict_ok [OF record_ok_prefix [OF p0 ok] list_at_members [OF l] l] obtain h' where
    g: "get_dict k ?h0 self (length h) = Some (length ?h0, h')"
    and p: "prefix (touched k ?h0 self (length h) []) h'"
    and d: "dict_at h' (length ?h0) = Some (content k ?h0 self [])" by blast
  have "prefix (if k = App then h else touched k h self e []) (touched k ?h0 self (length h) [])"
  proof (cases "k = App")
    case True
    then show ?thesis by (simp add: touched_def)
  next
    case False
    have "touched k h self e [] = touched k h self (length h) []"
      using False by (cases k) (simp_all add: touched_def)
    with False touched_append [OF ok False, of "[PyList []]" "length h" "[]"] show ?thesis by simp
  qed
  then have "prefix (if k = App then h else touched k h self e []) h'"
    using p by (rule prefix_order.trans)
  with g d content_prefix [OF p0 ok] show ?thesis
    by (simp add: get_dict_empty_def alloc_def)
qed

subsection \<open>Names that are no key of the dictionary, and the lists after the call\<close>

lemma keep_cong_keys:
  assumes "\<And>key. key \<in> dict_keys m \<Longrightarrow> VStr key \<in> set xs \<longleftrightarrow> VStr key \<in> set ys"
  shows "keep xs m = keep ys m"
  unfolding keep_def using assms by (intro filter_cong) (force simp: dict_keys_def)+

lemma keep_removeAll: "n \<notin> dict_keys m \<Longrightarrow> keep (removeAll (VStr n) xs) m = keep xs m"
  by (rule keep_cong_keys) auto

lemma keep_removeAll_token:
  "n \<notin> dict_keys m \<Longrightarrow> keep (removeAll (VStr n) xs @ [VStr ''token'']) m = keep (xs @ [VStr ''token'']) m"
  by (rule keep_cong_keys) auto

lemma content_removeAll:
  assumes "n \<notin> dict_keys (the_attrs h self)"
    and "\<not> (k = Employee \<and> n = ''roles'')" and "\<not> (k = Role \<and> n = ''groups'')"
  shows "content k h self (removeAll (VStr n) xs) = content k h self xs"
  using assms
  by (cases k)
     (auto simp: content_def Employee_content_def Role_content_def keep_removeAll keep_removeAll_token)

lemma map_of_keep: "map_of (keep ys m) key = (if VStr key \<in> set ys then None else map_of m key)"
  by (induction m) (auto simp: keep_def)

lemma keep_token_filter:
  "keep (xs @ [VStr ''token'']) m = keep (xs @ [VStr ''token'']) (filter (\<lambda>(key, v). key \<noteq> ''token'') m)"
  by (induction m) (auto simp: keep_def)

lemma keep_token: "''token'' \<notin> dict_keys (keep (xs @ [VStr ''token'']) m)"
  by (simp add: dict_keys_keep)

lemma dict_at_update_other: "a \<noteq> r \<Longrightarrow> dict_at (h[r := ob]) a = dict_at h a"
  by (simp add: dict_at_def lookup_list_update)

lemma inst_at_update_other: "a \<noteq> r \<Longrightarrow> inst_at (h[r := ob]) a = inst_at h a"
  by (simp add: inst_at_def lookup_list_update)

lemma inst_ok_Role_touched [simp]: "inst_ok (Role_touched h a xs) b = inst_ok h b"
  by (simp add: Role_touched_def)

lemma inst_ok_roles_touched [simp]: "inst_ok (roles_touched h rs) b = inst_ok h b"
  by (induction rs arbitrary: h) simp_all

lemma inst_ok_touched:
  "list_at h e = Some ys \<or> k \<noteq> App \<Longrightarrow> inst_ok (touched k h self e xs) b = inst_ok h b"
proof (cases k)
  case App
  assume "list_at h e = Some ys \<or> k \<noteq> App"
  with App show ?thesis by (auto simp: touched_def inst_ok_def attrs_list_update)
qed (simp_all add: touched_def Employee_touched_def)

lemma list_at_touched:
  "k \<noteq> App \<or> a \<noteq> e \<Longrightarrow> list_at (touched k h self e xs) a = list_at h a"
proof (cases k)
  case App
  assume "k \<noteq> App \<or> a \<noteq> e"
  with App show ?thesis by (simp add: touched_def list_at_def lookup_list_update)
qed (simp_all add: touched_def Employee_touched_def)

text \<open>
  No call writes to a list other than the one \<^verbatim>\<open>App.get_dict\<close> is given: the default
  lists of \<^verbatim>\<open>Model.get_dict\<close>, \<^verbatim>\<open>Employee.get_dict\<close> and \<^verbatim>\<open>Role.get_dict\<close> stay
  empty.
\<close>

lemma get_dict_keeps_other_lists:
  assumes "record_ok k h self" and "list_at h excludes = Some xs"
    and "list_at h a = Some ys" and "k \<noteq> App \<or> a \<noteq> excludes"
  shows "\<exists>r h'. get_dict k h self excludes = Some (r, h') \<and> list_at h' a = Some ys"
proof -
  from get_dict_ok [OF assms(1) list_at_members [OF assms(2)] assms(2)] obtain h' where
    g: "get_dict k h self excludes = Some (length h, h')"
    and p: "prefix (touched k h self excludes xs) h'" by blast
  have "list_at (touched k h self excludes xs) a = Some ys"
    using assms(3,4) by (simp add: list_at_touched)
  with p have "list_at h' a = Some ys" by (rule list_at_prefix)
  with g show ?thesis by blast
qed

subsection \<open>The roles while an Employee is serialised\<close>

lemma keep_Nil [simp]: "keep [] m = m"
  by (simp add: keep_def)

lemma apartD: "apart h as bs \<Longrightarrow> a \<in> set as \<Longrightarrow> b \<in> set bs \<Longrightarrow> dict_of h a \<noteq> dict_of h b"
  by (auto simp: apart_def list_all_iff)

lemma own_dictsD:
  "own_dicts h as \<Longrightarrow> a \<in> set as \<Longrightarrow> b \<in> set as \<Longrightarrow> dict_of h a = dict_of h b \<Longrightarrow> a = b"
  by (auto simp: own_dicts_def list_all_iff split: if_splits)

lemma evolved_refl: "evolved h rs gs h"
  by (simp add: evolved_def)

lemma evolved_dict_of: "evolved h rs gs H \<Longrightarrow> dict_of H b = dict_of h b"
  by (simp add: evolved_def dict_of_def)

lemma evolved_the_proxy: "evolved h rs gs H \<Longrightarrow> the_proxy H b = the_proxy h b"
  by (simp add: evolved_def the_proxy_def proxy_def)

lemma evolved_the_list: "evolved h rs gs H \<Longrightarrow> the_list H b = the_list h b"
  by (simp add: evolved_def the_list_def)

lemma evolved_inst_ok:
  assumes "evolved h rs gs H" and "r \<in> set rs" and "inst_ok h r"
  shows "inst_ok H r"
  using assms by (auto simp: evolved_def inst_ok_def)

lemma evolved_warm_self:
  assumes "apart h [self] rs" and "apart h [self] gs"
  shows "evolved h rs gs (warm h self roles_key)"
proof -
  have "attrs (warm h self roles_key) b = attrs h b" if "b \<in> set rs \<or> b \<in> set gs" for b
  proof -
    from that assms have "dict_of h self \<noteq> dict_of h b"
      by (auto dest: apartD [where a = self])
    then show ?thesis by (intro attrs_warm_other) simp
  qed
  then show ?thesis by (simp add: evolved_def)
qed

lemma evolved_warm_role:
  assumes e: "evolved h rs gs H" and r: "r \<in> set rs" and ok: "inst_ok h r"
    and ap: "apart h rs gs" and own: "own_dicts h rs"
  shows "evolved h rs gs (warm H r groups_key)"
proof -
  let ?W = "warm H r groups_key"
  have d: "dict_of H b = dict_of h b" for b using e by (rule evolved_dict_of)
  have g: "attrs ?W g = attrs h g" if "g \<in> set gs" for g
  proof -
    from ap r that have "dict_of h r \<noteq> dict_of h g" by (rule apartD)
    then have "attrs ?W g = attrs H g" by (intro attrs_warm_other) (simp add: d)
    with e that show ?thesis by (simp add: evolved_def)
  qed
  have a: "attrs ?W b = attrs h b
         \<or> attrs ?W b = Some (AList.update groups_key (VProxy b) (the_attrs h b))"
    if b: "b \<in> set rs" for b
  proof (cases "dict_of h b = dict_of h r")
    case False
    then have "attrs ?W b = attrs H b" by (intro attrs_warm_other) (simp add: d)
    with e b show ?thesis by (simp add: evolved_def)
  next
    case True
    with own b r have br: "b = r" by (rule own_dictsD)
    have okH: "inst_ok H r" using e r ok by (rule evolved_inst_ok)
    from e r have "attrs H r = attrs h r
        \<or> attrs H r = Some (AList.update groups_key (VProxy r) (the_attrs h r))"
      by (simp add: evolved_def)
    then show ?thesis
    proof
      assume "attrs H r = attrs h r"
      then have "the_attrs H r = the_attrs h r" by (simp add: the_attrs_def)
      with attrs_warm_self [OF okH, of groups_key] inst_ok_attrs [OF ok] br show ?thesis
        by (auto split: if_splits)
    next
      assume u: "attrs H r = Some (AList.update groups_key (VProxy r) (the_attrs h r))"
      then have "cached H r groups_key"
        by (simp add: cached_def the_attrs_def update_conv')
      with attrs_warm_self [OF okH, of groups_key] u br show ?thesis
        by (simp add: the_attrs_def)
    qed
  qed
  from e g a show ?thesis by (simp add: evolved_def)
qed

lemma evolved_roles_touched:
  assumes "evolved h rs gs H" and "set rs' \<subseteq> set rs" and "list_all (inst_ok h) rs"
    and "apart h rs gs" and "own_dicts h rs"
  shows "evolved h rs gs (roles_touched H rs')"
  using assms(1,2)
proof (induction rs' arbitrary: H)
  case Nil
  then show ?case by simp
next
  case (Cons r rs')
  then have r: "r \<in> set rs" by simp
  with assms(3) have ok: "inst_ok h r" by (simp add: list_all_iff)
  have "evolved h rs gs (Role_touched H r (the_list H Role_default))"
    using evolved_warm_role [OF Cons.prems(1) r ok assms(4,5)] Cons.prems(1)
    by (simp add: Role_touched_def)
  with Cons show ?case by simp
qed

lemma evolved_Role_content:
  assumes e: "evolved h rs gs H" and r: "r \<in> set rs" and ok: "role_ok h r"
    and sub: "set (the_proxy h r) \<subseteq> set gs" and ap: "apart h rs gs"
  shows "AList.delete groups_key (Role_content H r []) = AList.delete groups_key (Role_content h r [])"
    and "cached h r groups_key \<Longrightarrow> Role_content H r [] = Role_content h r []"
proof -
  from ok have i: "inst_ok h r" by (simp add: role_ok_def)
  have same: "Group_content (warm H' r groups_key) g = Group_content h g"
    if "evolved h rs gs H'" and "g \<in> set (the_proxy h r)" for H' g
  proof -
    from that(2) sub have g: "g \<in> set gs" by auto
    from ap r g have "dict_of h r \<noteq> dict_of h g" by (rule apartD)
    then have "dict_of H' g \<noteq> dict_of H' r"
      using evolved_dict_of [OF that(1)] by simp
    then have "the_attrs (warm H' r groups_key) g = the_attrs H' g"
      by (rule the_attrs_warm_other)
    also have "\<dots> = the_attrs h g" using that(1) g by (simp add: evolved_def the_attrs_def)
    finally show ?thesis
      using evolved_the_list [OF that(1)] by (simp add: Group_content_def)
  qed
  let ?G = "VList (map (\<lambda>g. VDict (Group_content h g)) (the_proxy h r))"
  have c: "Role_content H' r [] = AList.update ''groups'' ?G (the_attrs H' r)"
    if "evolved h rs gs H'" for H'
    using same [OF that] by (simp add: Role_content_def evolved_the_proxy [OF that] cong: map_cong)
  have k: "''groups'' \<noteq> groups_key" by (simp add: groups_key_def)
  from e r have "attrs H r = attrs h r
      \<or> attrs H r = Some (AList.update groups_key (VProxy r) (the_attrs h r))"
    by (simp add: evolved_def)
  then have t: "the_attrs H r = the_attrs h r
      \<or> the_attrs H r = AList.update groups_key (VProxy r) (the_attrs h r)"
    by (auto simp: the_attrs_def)
  then show "AList.delete groups_key (Role_content H r []) = AList.delete groups_key (Role_content h r [])"
    by (auto simp: c [OF e] c [OF evolved_refl] delete_update [OF k] delete_update_same)
  show "Role_content H r [] = Role_content h r []" if "cached h r groups_key"
  proof -
    from that have "AList.update groups_key (VProxy r) (the_attrs h r) = the_attrs h r"
      by (simp add: cached_def update_triv)
    with t show ?thesis by (auto simp: c [OF e] c [OF evolved_refl])
  qed
qed

lemma evolved_role_dicts:
  assumes "evolved h rs gs H" and "set rs' \<subseteq> set rs" and "list_all (inst_ok h) rs"
    and "apart h rs gs" and "own_dicts h rs" and "i < length rs'"
  shows "\<exists>Hi. evolved h rs gs Hi
           \<and> role_dicts H rs' ! i = VDict (Role_content Hi (rs' ! i) (the_list h Role_default))"
  using assms(1,2,6)
proof (induction rs' arbitrary: H i)
  case Nil
  then show ?case by simp
next
  case (Cons r rs')
  then have r: "r \<in> set rs" by simp
  with assms(3) have ok: "inst_ok h r" by (simp add: list_all_iff)
  have l: "the_list H Role_default = the_list h Role_default"
    using Cons.prems(1) by (rule evolved_the_list)
  show ?case
  proof (cases i)
    case 0
    with Cons.prems(1) l show ?thesis by auto
  next
    case (Suc j)
    have e': "evolved h rs gs (Role_touched H r (the_list H Role_default))"
      using evolved_warm_role [OF Cons.prems(1) r ok assms(4,5)] Cons.prems(1)
      by (simp add: Role_touched_def)
    from Cons.IH [OF e', of j] Cons.prems Suc show ?thesis by simp
  qed
qed

lemma role_ok_roles_touched [simp]: "role_ok (roles_touched h rs) b = role_ok h b"
  by (induction rs arbitrary: h) simp_all

subsection \<open>After a call the proxies have been read\<close>

lemma cached_warm_other_key:
  assumes "cached h a key" and "key \<noteq> key'"
  shows "cached (warm h b key') a key"
proof (rule warm_cases [of h b key'])
  assume "warm h b key' = h"
  with assms show ?thesis by simp
next
  fix d ps m
  assume i: "inst_at h b = Some (d, ps)" and m: "dict_at h d = Some m"
    and w: "warm h b key' = h[d := PyDict (AList.update key' (VProxy b) m)]"
  show ?thesis
  proof (cases "dict_of h a = Some d")
    case True
    then have "the_attrs h a = m" using m by (simp add: the_attrs_def attrs_def)
    moreover have "dict_of (warm h b key') a = Some d" using True by simp
    then have "the_attrs (warm h b key') a = AList.update key' (VProxy b) m"
      using m by (simp add: the_attrs_def attrs_def w dict_at_dict_update)
    ultimately show ?thesis using assms by (simp add: cached_def update_conv')
  next
    case False
    have "dict_of h b = Some d" using i by (simp add: dict_of_def)
    with False have "the_attrs (warm h b key') a = the_attrs h a"
      by (intro the_attrs_warm_other) simp
    with assms show ?thesis by (simp add: cached_def)
  qed
qed

lemma cached_warm_other_inst:
  assumes "cached h a key" and "dict_of h a \<noteq> dict_of h b"
  shows "cached (warm h b key') a key"
  using assms by (simp add: cached_def the_attrs_warm_other)

lemma cached_roles_touched_self:
  assumes "cached h a roles_key" and "list_at h Role_default = Some []"
  shows "cached (roles_touched h rs) a roles_key"
  using assms
proof (induction rs arbitrary: h)
  case Nil
  then show ?case by simp
next
  case (Cons r rs)
  have k: "roles_key \<noteq> groups_key" by (simp add: roles_key_def groups_key_def)
  from Cons.prems have l: "the_list h Role_default = []" by (simp add: the_list_def)
  have "cached (warm h r groups_key) a roles_key"
    using Cons.prems(1) k by (rule cached_warm_other_key)
  with Cons.IH [of "warm h r groups_key"] Cons.prems(2) show ?case
    by (simp add: l Role_touched_def)
qed

lemma cached_roles_touched:
  assumes "list_all (inst_ok h) rs" and "own_dicts h rs0" and "set rs \<subseteq> set rs0"
    and "list_at h Role_default = Some []" and "r \<in> set rs0"
    and "r \<in> set rs \<or> cached h r groups_key"
  shows "cached (roles_touched h rs) r groups_key"
  using assms
proof (induction rs arbitrary: h)
  case Nil
  then show ?case by simp
next
  case (Cons b rs)
  let ?W = "warm h b groups_key"
  from Cons.prems(4) have l: "the_list h Role_default = []" by (simp add: the_list_def)
  from Cons.prems(1) have ib: "inst_ok h b" by simp
  from Cons.prems(3) have b: "b \<in> set rs0" by simp
  have c: "r \<in> set rs \<or> cached ?W r groups_key"
  proof (cases "r = b")
    case True
    with ib show ?thesis by (simp add: cached_warm)
  next
    case False
    with Cons.prems(2,5) b have "dict_of h r \<noteq> dict_of h b"
      by (auto dest: own_dictsD)
    with Cons.prems(6) False show ?thesis by (auto intro: cached_warm_other_inst)
  qed
  have "cached (roles_touched ?W rs) r groups_key"
  proof (rule Cons.IH)
    show "list_all (inst_ok ?W) rs" using Cons.prems(1) by (simp add: list_all_iff)
    show "own_dicts ?W rs0" using Cons.prems(2) by (simp add: own_dicts_def)
    show "set rs \<subseteq> set rs0" using Cons.prems(3) by simp
    show "list_at ?W Role_default = Some []" using Cons.prems(4) by simp
    show "r \<in> set rs0" by fact
    show "r \<in> set rs \<or> cached ?W r groups_key" by fact
  qed
  then show ?case by (simp add: l Role_touched_def)
qed

lemma the_proxy_roles_touched [simp]: "the_proxy (roles_touched h rs) b = the_proxy h b"
  by (induction rs arbitrary: h) (simp_all add: Role_touched_def)

lemma employee_ok_roles_touched [simp]: "employee_ok (roles_touched h rs) b = employee_ok h b"
  by (induction rs arbitrary: h) (simp_all add: Role_touched_def)

lemma record_ok_touched:
  "k \<noteq> App \<Longrightarrow> record_ok k (touched k h self e xs) b = record_ok k h b"
  by (cases k) (simp_all add: touched_def record_ok_def Employee_touched_def Role_touched_def)

text \<open>
  A call \<^verbatim>\<open>record.get_dict([])\<close> leaves the record warmed, so the calls after the first
  are the ones that repeat.
\<close>

lemma get_dict_empty_warms:
  assumes ok: "record_ok k h self"
    and emp: "k = Employee \<Longrightarrow> own_dicts h (the_proxy h self) \<and> list_at h Role_default = Some []"
  shows "\<exists>r h1. get_dict_empty k h self = Some (r, h1) \<and> warmed k h1 self \<and> record_ok k h1 self"
proof -
  let ?t = "if k = App then h else touched k h self 0 []"
  from get_dict_empty_ok [OF ok, of 0] obtain h1 where
    g: "get_dict_empty k h self = Some (Suc (length h), h1)"
    and p: "prefix ?t h1" by blast
  have okt: "record_ok k ?t self"
    using ok by (cases "k = App") (simp_all add: record_ok_touched)
  have "warmed k ?t self"
  proof (cases k)
    case Role
    with ok have "inst_ok h self" by (simp add: record_ok_def role_ok_def)
    with Role show ?thesis
      by (simp add: warmed_def touched_def Role_touched_def cached_warm)
  next
    case Employee
    with ok have i: "inst_ok h self" and r: "list_all (role_ok h) (the_proxy h self)"
      by (simp_all add: record_ok_def employee_ok_def)
    from emp [OF Employee] have own: "own_dicts h (the_proxy h self)"
      and l: "list_at h Role_default = Some []" by simp_all
    let ?W = "warm h self roles_key"
    let ?rs = "the_proxy h self"
    have 1: "cached (roles_touched ?W ?rs) self roles_key"
      using i l by (intro cached_roles_touched_self) (simp_all add: cached_warm)
    have 2: "cached (roles_touched ?W ?rs) b groups_key" if "b \<in> set ?rs" for b
    proof (rule cached_roles_touched)
      show "list_all (inst_ok ?W) ?rs" using r by (simp add: list_all_iff role_ok_def)
      show "own_dicts ?W ?rs" using own by (simp add: own_dicts_def)
      show "set ?rs \<subseteq> set ?rs" by simp
      show "list_at ?W Role_default = Some []" using l by simp
      show "b \<in> set ?rs" by fact
      show "b \<in> set ?rs \<or> cached ?W b groups_key" using that by simp
    qed
    from 1 2 Employee show ?thesis
      by (simp add: warmed_def touched_def Employee_touched_def list_all_iff)
  qed (simp_all add: warmed_def)
  with p okt have "warmed k h1 self" by (rule warmed_prefix)
  moreover have "record_ok k h1 self" using p okt by (rule record_ok_prefix)
  ultimately show ?thesis using g by blast
qed

subsection \<open>Arguments that raise\<close>

lemma App_get_dict_raises: "list_at h e = None \<Longrightarrow> App_get_dict h self e = None"
  by (simp add: App_get_dict_def list_append_def)

lemma members_append_None: "e < length h \<Longrightarrow> members h e = None \<Longrightarrow> members (h @ ext) e = None"
  by (simp add: members_def lookup_def nth_append)

lemma Model_get_dict_raises:
  "e < length h \<Longrightarrow> members h e = None \<Longrightarrow> Model_get_dict h self e = None"
  by (auto simp: Model_get_dict_def dict_copy_def alloc_def filter_dictionary_def
      members_append_None split: bind_splits)

section \<open>The claims\<close>

text \<open>
  C1. For every App and every exclusion list the caller passes, the dictionary that
  \<^verbatim>\<open>App.get_dict\<close> returns has no key \<^verbatim>\<open>'token'\<close>. A new
  \<^verbatim>\<open>App(name="Slack", token="secret123")\<close>, serialised with the default list in a
  newly loaded module, gives exactly \<^verbatim>\<open>{'name': 'Slack'}\<close>.
\<close>

theorem App_get_dict_never_token:
  "(inst_ok h self \<and> list_at h excludes = Some xs \<longrightarrow>
      (\<exists>r h' m. App_get_dict h self excludes = Some (r, h') \<and> dict_at h' r = Some m
         \<and> ''token'' \<notin> dict_keys m))
   \<and> do { (app, h1) \<leftarrow> App_new heap0 (VStr ''Slack'') (VStr ''secret123'');
          (r, h2) \<leftarrow> App_get_dict h1 app App_default;
          dict_at h2 r } = Some [(''name'', VStr ''Slack'')]"
proof (intro conjI impI)
  assume a: "inst_ok h self \<and> list_at h excludes = Some xs"
  then have ok: "record_ok App h self" and l: "list_at h excludes = Some xs"
    by (simp_all add: record_ok_def)
  from get_dict_ok [OF ok list_at_members [OF l] l] obtain h' where
    "get_dict App h self excludes = Some (length h, h')"
    "dict_at h' (length h) = Some (content App h self xs)" by blast
  then show "\<exists>r h' m. App_get_dict h self excludes = Some (r, h') \<and> dict_at h' r = Some m
         \<and> ''token'' \<notin> dict_keys m"
    using keep_token by (auto simp: content_def)
next
  show "do { (app, h1) \<leftarrow> App_new heap0 (VStr ''Slack'') (VStr ''secret123'');
          (r, h2) \<leftarrow> App_get_dict h1 app App_default;
          dict_at h2 r } = Some [(''name'', VStr ''Slack'')]"
    by code_simp
qed

theorem App_get_dict_never_token_witness:
  "inst_ok example_heap 11 \<and> list_at example_heap 12 = Some [VStr ''id'', VStr ''nickname'']
   \<and> (\<exists>r h' m. App_get_dict example_heap 11 12 = Some (r, h') \<and> dict_at h' r = Some m
         \<and> ''token'' \<notin> dict_keys m)"
proof -
  have a: "inst_ok example_heap 11" by code_simp
  have b: "list_at example_heap 12 = Some [VStr ''id'', VStr ''nickname'']" by code_simp
  show ?thesis
    using a b App_get_dict_never_token [of example_heap 11 12 "[VStr ''id'', VStr ''nickname'']"]
    by blast
qed

text \<open>
  C2. For a record of any of the seven classes and any exclusion list, the dictionary that
  \<^verbatim>\<open>get_dict\<close> returns has no key that is a member of the list. The base behaviour,
  \<^verbatim>\<open>Model.get_dict\<close>, puts a copy of the attributes in a new dictionary and removes the
  keys that are in the list.
\<close>

theorem get_dict_excludes:
  assumes "record_ok k h self" and "attrs h self = Some a" and "list_at h excludes = Some xs"
  shows "(\<exists>r h' m. get_dict k h self excludes = Some (r, h') \<and> dict_at h' r = Some m
            \<and> (\<forall>key. VStr key \<in> set xs \<longrightarrow> key \<notin> dict_keys m))
         \<and> (\<exists>r h'. Model_get_dict h self excludes = Some (r, h') \<and> lookup h r = None
            \<and> dict_at h' r = Some (filter (\<lambda>(key, v). VStr key \<notin> set xs) a)
            \<and> attrs h' self = Some a)"
proof
  from get_dict_ok [OF assms(1) list_at_members [OF assms(3)] assms(3)] obtain h' where
    "get_dict k h self excludes = Some (length h, h')"
    "dict_at h' (length h) = Some (content k h self xs)" by blast
  then show "\<exists>r h' m. get_dict k h self excludes = Some (r, h') \<and> dict_at h' r = Some m
            \<and> (\<forall>key. VStr key \<in> set xs \<longrightarrow> key \<notin> dict_keys m)"
    using content_excluded by blast
next
  have "attrs (h @ [PyDict (keep xs a)]) self = Some a"
    using assms(2) by (rule attrs_prefix [rotated]) simp
  then show "\<exists>r h'. Model_get_dict h self excludes = Some (r, h') \<and> lookup h r = None
            \<and> dict_at h' r = Some (filter (\<lambda>(key, v). VStr key \<notin> set xs) a)
            \<and> attrs h' self = Some a"
    using Model_get_dict_eq [OF assms(2) list_at_members [OF assms(3)]]
    by (simp add: dict_at_last lookup_def keep_def)
qed

theorem get_dict_excludes_witness:
  "record_ok Employee example_heap 9
   \<and> attrs example_heap 9 = Some [(''id'', VInt 1), (''email'', VStr ''a@x.com''),
        (''first_name'', VStr ''A''), (''last_name'', VStr ''B''), (''slack_id'', VStr '''')]
   \<and> list_at example_heap 12 = Some [VStr ''id'', VStr ''nickname'']
   \<and> (\<exists>r h' m. get_dict Employee example_heap 9 12 = Some (r, h') \<and> dict_at h' r = Some m
         \<and> ''id'' \<notin> dict_keys m \<and> ''nickname'' \<notin> dict_keys m)"
proof -
  have a: "record_ok Employee example_heap 9" by code_simp
  have b: "attrs example_heap 9 = Some [(''id'', VInt 1), (''email'', VStr ''a@x.com''),
        (''first_name'', VStr ''A''), (''last_name'', VStr ''B''), (''slack_id'', VStr '''')]"
    by code_simp
  have c: "list_at example_heap 12 = Some [VStr ''id'', VStr ''nickname'']" by code_simp
  from get_dict_excludes [OF a b c] obtain r h' m where
    "get_dict Employee example_heap 9 12 = Some (r, h')" "dict_at h' r = Some m"
    "\<forall>key. VStr key \<in> set [VStr ''id'', VStr ''nickname''] \<longrightarrow> key \<notin> dict_keys m" by blast
  then have "\<exists>r h' m. get_dict Employee example_heap 9 12 = Some (r, h') \<and> dict_at h' r = Some m
         \<and> ''id'' \<notin> dict_keys m \<and> ''nickname'' \<notin> dict_keys m" by auto
  with a b c show ?thesis by blast
qed

text \<open>
  C3. As stated (the i-th element of \<^verbatim>\<open>'roles'\<close> equals the i-th role's own
  \<^verbatim>\<open>get_dict\<close> with empty exclusion) this fails. \<^verbatim>\<open>Role.get_dict\<close> copies the role's
  \<^verbatim>\<open>__dict__\<close> and then reads \<^verbatim>\<open>self.groups\<close>; the first such read stores the proxy's
  entry in the role's \<^verbatim>\<open>__dict__\<close>, so the next copy has one entry more. Below, for the
  Employee of the example and its one role: whether the role's own \<^verbatim>\<open>get_dict\<close> is
  called before the Employee's or after it, its result differs from the nested dictionary.
  And for the Employee associated twice with one role, the two nested dictionaries differ
  from each other.
\<close>

theorem Employee_get_dict_roles_counterexample:
  "do { (ri, hi) \<leftarrow> Role_get_dict example_heap 7 14;
        mi \<leftarrow> dict_at hi ri;
        (r, h1) \<leftarrow> Employee_get_dict hi 9 14;
        m \<leftarrow> dict_at h1 r;
        Some (map_of m ''roles'' = Some (VList [VDict mi])) } = Some False
   \<and> do { (r, h1) \<leftarrow> Employee_get_dict example_heap 9 14;
          m \<leftarrow> dict_at h1 r;
          (ri, hi) \<leftarrow> Role_get_dict h1 7 14;
          mi \<leftarrow> dict_at hi ri;
          Some (map_of m ''roles'' = Some (VList [VDict mi])) } = Some False
   \<and> do { (r, h1) \<leftarrow> Employee_get_dict example_heap 22 14;
          m \<leftarrow> dict_at h1 r;
          Some (case map_of m ''roles'' of
                  Some (VList [VDict a, VDict b]) \<Rightarrow> Some (a = b, map_of a groups_key, map_of b groups_key)
                | _ \<Rightarrow> None) } = Some (Some (False, None, Some (VProxy 7)))"
  by code_simp

text \<open>
  C3, amended. For an Employee with the roles \<open>rs\<close> and any exclusion list: if
  \<^verbatim>\<open>'roles'\<close> is not in the list, the returned dictionary maps \<^verbatim>\<open>'roles'\<close> to a list as
  long as \<open>rs\<close>; its i-th element has the entries of the dictionary that the i-th role's
  own \<^verbatim>\<open>get_dict\<close> returns for an empty exclusion list, called before the Employee's call
  or after it, except for the entry under the key of the proxy of \<^verbatim>\<open>Role.groups\<close>, which
  one may have and the other not; where the role's \<^verbatim>\<open>__dict__\<close> holds that entry before
  the call, the three are equal. If \<^verbatim>\<open>'roles'\<close> is in the list, the returned dictionary
  has no key \<^verbatim>\<open>'roles'\<close>. The default list of \<^verbatim>\<open>Role.get_dict\<close> is empty, as the module
  leaves it; the Employee, its roles and their groups are objects of three classes.
\<close>

theorem Employee_get_dict_roles:
  assumes "employee_ok h self" and "proxy h self = Some rs"
    and "list_at h excludes = Some xs"
    and "list_at h Role_default = Some []" and "list_at h e0 = Some []"
    and "employee_apart h self"
  shows "\<exists>r h' m. Employee_get_dict h self excludes = Some (r, h') \<and> dict_at h' r = Some m
           \<and> (if VStr ''roles'' \<in> set xs then ''roles'' \<notin> dict_keys m
              else \<exists>vs. map_of m ''roles'' = Some (VList vs) \<and> length vs = length rs
                     \<and> (\<forall>i<length rs. \<exists>ni ri hi mi ri' hi' mi'.
                           vs ! i = VDict ni
                         \<and> Role_get_dict h (rs ! i) e0 = Some (ri, hi) \<and> dict_at hi ri = Some mi
                         \<and> Role_get_dict h' (rs ! i) e0 = Some (ri', hi') \<and> dict_at hi' ri' = Some mi'
                         \<and> AList.delete groups_key ni = AList.delete groups_key mi
                         \<and> AList.delete groups_key ni = AList.delete groups_key mi'
                         \<and> (cached h (rs ! i) groups_key \<longrightarrow> ni = mi \<and> ni = mi')))"
proof -
  from assms(2) have rs: "the_proxy h self = rs" by (simp add: the_proxy_def)
  from assms(4) have d: "the_list h Role_default = []" by (simp add: the_list_def)
  let ?gs = "all_groups h rs"
  from assms(6) have ap1: "apart h [self] rs" and ap2: "apart h [self] ?gs"
    and ap: "apart h rs ?gs" and own: "own_dicts h rs"
    by (simp_all add: employee_apart_def rs Let_def)
  from assms(1) have rok: "list_all (role_ok h) rs" by (simp add: employee_ok_def rs)
  then have iok: "list_all (inst_ok h) rs" by (simp add: list_all_iff role_ok_def)
  from Employee_get_dict_ok [OF assms(1) list_at_members [OF assms(3)]] obtain h' where
    g: "Employee_get_dict h self excludes = Some (length h, h')"
    and p: "prefix (Employee_touched h self xs) h'"
    and m: "dict_at h' (length h) = Some (Employee_content h self xs)" by blast
  show ?thesis
  proof (cases "VStr ''roles'' \<in> set xs")
    case True
    then have "''roles'' \<notin> dict_keys (Employee_content h self xs)"
      by (simp add: Employee_content_def dict_keys_keep)
    with g m True show ?thesis by auto
  next
    case False
    let ?W = "warm h self roles_key"
    let ?T = "roles_touched ?W rs"
    let ?vs = "role_dicts ?W rs"
    have eW: "evolved h rs ?gs ?W" using ap1 ap2 by (rule evolved_warm_self)
    have eT: "evolved h rs ?gs ?T"
      using eW _ iok ap own by (rule evolved_roles_touched) simp
    have pT: "prefix ?T h'" using p False by (simp add: Employee_touched_def rs)
    have look: "map_of (Employee_content h self xs) ''roles'' = Some (VList ?vs)"
      using False by (simp add: Employee_content_def rs update_conv')
    have each: "\<exists>ni ri hi mi ri' hi' mi'.
           ?vs ! i = VDict ni
         \<and> Role_get_dict h (rs ! i) e0 = Some (ri, hi) \<and> dict_at hi ri = Some mi
         \<and> Role_get_dict h' (rs ! i) e0 = Some (ri', hi') \<and> dict_at hi' ri' = Some mi'
         \<and> AList.delete groups_key ni = AList.delete groups_key mi
         \<and> AList.delete groups_key ni = AList.delete groups_key mi'
         \<and> (cached h (rs ! i) groups_key \<longrightarrow> ni = mi \<and> ni = mi')" if i: "i < length rs" for i
    proof -
      let ?r = "rs ! i"
      from i have r: "?r \<in> set rs" by simp
      with rok have ok: "role_ok h ?r" by (simp add: list_all_iff)
      from r have sub: "set (the_proxy h ?r) \<subseteq> set ?gs" by (auto simp: all_groups_def)
      from evolved_role_dicts [OF eW _ iok ap own i] obtain Hi where
        eH: "evolved h rs ?gs Hi" and n: "?vs ! i = VDict (Role_content Hi ?r [])"
        by (auto simp: d)
      from Role_get_dict_ok [OF ok list_at_members [OF assms(5)]] obtain hi where
        b: "Role_get_dict h ?r e0 = Some (length h, hi)"
        "dict_at hi (length h) = Some (Role_content h ?r [])" by blast
      have okT: "role_ok ?T ?r" using ok by simp
      then have ok': "role_ok h' ?r" by (rule role_ok_prefix [OF pT])
      have "list_at ?T e0 = Some []" using eT assms(5) by (simp add: evolved_def)
      then have "list_at h' e0 = Some []" by (rule list_at_prefix [OF pT])
      from Role_get_dict_ok [OF ok' list_at_members [OF this]] obtain hi' where
        a: "Role_get_dict h' ?r e0 = Some (length h', hi')"
        "dict_at hi' (length h') = Some (Role_content h' ?r [])" by blast
      have cT: "Role_content h' ?r [] = Role_content ?T ?r []"
        using pT okT by (rule Role_content_prefix)
      note E1 = evolved_Role_content [OF eH r ok sub ap]
      note E2 = evolved_Role_content [OF eT r ok sub ap]
      from n b a cT E1 E2 show ?thesis by simp
    qed
    from g m False look each show ?thesis by auto
  qed
qed

theorem Employee_get_dict_roles_witness:
  "employee_ok example_heap 9 \<and> proxy example_heap 9 = Some [7]
   \<and> list_at example_heap 12 = Some [VStr ''id'', VStr ''nickname'']
   \<and> list_at example_heap Role_default = Some [] \<and> list_at example_heap 14 = Some []
   \<and> employee_apart example_heap 9
   \<and> (\<exists>r h' m vs ni ri hi mi ri' hi' mi'.
         Employee_get_dict example_heap 9 12 = Some (r, h') \<and> dict_at h' r = Some m
         \<and> map_of m ''roles'' = Some (VList vs) \<and> length vs = 1 \<and> vs ! 0 = VDict ni
         \<and> Role_get_dict example_heap 7 14 = Some (ri, hi) \<and> dict_at hi ri = Some mi
         \<and> Role_get_dict h' 7 14 = Some (ri', hi') \<and> dict_at hi' ri' = Some mi'
         \<and> AList.delete groups_key ni = AList.delete groups_key mi
         \<and> AList.delete groups_key ni = AList.delete groups_key mi')"
proof -
  have a: "employee_ok example_heap 9" by code_simp
  have b: "proxy example_heap 9 = Some [7]" by code_simp
  have c: "list_at example_heap 12 = Some [VStr ''id'', VStr ''nickname'']" by code_simp
  have d: "list_at example_heap Role_default = Some []" by code_simp
  have e: "list_at example_heap 14 = Some []" by code_simp
  have f: "employee_apart example_heap 9" by code_simp
  from Employee_get_dict_roles [OF a b c d e f]
  have "\<exists>r h' m vs ni ri hi mi ri' hi' mi'.
         Employee_get_dict example_heap 9 12 = Some (r, h') \<and> dict_at h' r = Some m
         \<and> map_of m ''roles'' = Some (VList vs) \<and> length vs = 1 \<and> vs ! 0 = VDict ni
         \<and> Role_get_dict example_heap 7 14 = Some (ri, hi) \<and> dict_at hi ri = Some mi
         \<and> Role_get_dict h' 7 14 = Some (ri', hi') \<and> dict_at hi' ri' = Some mi'
         \<and> AList.delete groups_key ni = AList.delete groups_key mi
         \<and> AList.delete groups_key ni = AList.delete groups_key mi'"
    by (fastforce split: if_splits)
  with a b c d e f show ?thesis by blast
qed

text \<open>
  C4. For a Role with the groups \<open>gs\<close> and any exclusion list: if \<^verbatim>\<open>'groups'\<close> is not
  in the list, the returned dictionary maps \<^verbatim>\<open>'groups'\<close> to the list of the
  dictionaries that each group's own \<^verbatim>\<open>get_dict\<close> returns for an empty exclusion list;
  if \<^verbatim>\<open>'groups'\<close> is in the list, the returned dictionary has no key \<^verbatim>\<open>'groups'\<close>.
  The default list of \<^verbatim>\<open>Model.get_dict\<close> is empty, as the module leaves it. The read of
  \<^verbatim>\<open>self.groups\<close> writes to the Role's \<^verbatim>\<open>__dict__\<close>; the groups are other objects, with
  a \<^verbatim>\<open>__dict__\<close> of their own.
\<close>

theorem Role_get_dict_groups:
  assumes "role_ok h self" and "proxy h self = Some gs"
    and "list_at h excludes = Some xs"
    and "list_at h Model_default = Some []" and "list_at h e0 = Some []"
    and "apart h [self] gs"
  shows "\<exists>r h' m. Role_get_dict h self excludes = Some (r, h') \<and> dict_at h' r = Some m
           \<and> (if VStr ''groups'' \<in> set xs then ''groups'' \<notin> dict_keys m
              else \<exists>vs. map_of m ''groups'' = Some (VList vs) \<and> length vs = length gs
                     \<and> (\<forall>i<length gs. \<exists>ri hi mi.
                           get_dict Group h (gs ! i) e0 = Some (ri, hi) \<and> dict_at hi ri = Some mi
                           \<and> vs ! i = VDict mi))"
proof -
  from assms(2) have gs: "the_proxy h self = gs" by (simp add: the_proxy_def)
  from assms(4) have d: "the_list h Model_default = []" by (simp add: the_list_def)
  from Role_get_dict_ok [OF assms(1) list_at_members [OF assms(3)]] obtain h' where
    g: "Role_get_dict h self excludes = Some (length h, h')"
    and m: "dict_at h' (length h) = Some (Role_content h self xs)" by blast
  show ?thesis
  proof (cases "VStr ''groups'' \<in> set xs")
    case True
    then have "''groups'' \<notin> dict_keys (Role_content h self xs)"
      by (simp add: Role_content_def dict_keys_keep)
    with g m True show ?thesis by auto
  next
    case False
    let ?vs = "map (\<lambda>g. VDict (keep [] (the_attrs h g))) gs"
    have same: "Group_content (warm h self groups_key) g = keep [] (the_attrs h g)"
      if "g \<in> set gs" for g
    proof -
      from assms(6) that have "dict_of h g \<noteq> dict_of h self"
        by (auto simp: apart_def list_all_iff)
      then show ?thesis by (simp add: Group_content_def d the_attrs_warm_other)
    qed
    have look: "map_of (Role_content h self xs) ''groups'' = Some (VList ?vs)"
      using False same by (simp add: Role_content_def gs update_conv' cong: map_cong)
    have each: "\<exists>ri hi mi. get_dict Group h (gs ! i) e0 = Some (ri, hi) \<and> dict_at hi ri = Some mi
                  \<and> ?vs ! i = VDict mi" if "i < length gs" for i
    proof -
      from assms(1) that have "inst_ok h (gs ! i)"
        by (simp add: role_ok_def gs list_all_length)
      from Model_get_dict_ok [OF this list_at_members [OF assms(5)]] that show ?thesis by auto
    qed
    from g m False look each show ?thesis by auto
  qed
qed

theorem Role_get_dict_groups_witness:
  "role_ok example_heap 7 \<and> proxy example_heap 7 = Some [5]
   \<and> list_at example_heap 13 = Some [VStr ''id'']
   \<and> list_at example_heap Model_default = Some [] \<and> list_at example_heap 14 = Some []
   \<and> apart example_heap [7] [5]
   \<and> (\<exists>r h' m vs ri hi mi. Role_get_dict example_heap 7 13 = Some (r, h') \<and> dict_at h' r = Some m
         \<and> map_of m ''groups'' = Some (VList vs) \<and> length vs = 1
         \<and> get_dict Group example_heap 5 14 = Some (ri, hi) \<and> dict_at hi ri = Some mi
         \<and> vs ! 0 = VDict mi)"
proof -
  have a: "role_ok example_heap 7" by code_simp
  have b: "proxy example_heap 7 = Some [5]" by code_simp
  have c: "list_at example_heap 13 = Some [VStr ''id'']" by code_simp
  have d: "list_at example_heap Model_default = Some []" by code_simp
  have e: "list_at example_heap 14 = Some []" by code_simp
  have f: "apart example_heap [7] [5]" by code_simp
  from Role_get_dict_groups [OF a b c d e f]
  have "\<exists>r h' m vs ri hi mi. Role_get_dict example_heap 7 13 = Some (r, h') \<and> dict_at h' r = Some m
         \<and> map_of m ''groups'' = Some (VList vs) \<and> length vs = 1
         \<and> get_dict Group example_heap 5 14 = Some (ri, hi) \<and> dict_at hi ri = Some mi
         \<and> vs ! 0 = VDict mi"
    by (fastforce split: if_splits)
  with a b c d e f show ?thesis by blast
qed

text \<open>
  C5. \<^verbatim>\<open>App.get_dict\<close> writes to the list the caller passes: it appends \<^verbatim>\<open>'token'\<close>
  to it before it delegates to \<^verbatim>\<open>Model.get_dict\<close>, so after the call \<^verbatim>\<open>'token'\<close>
  is a member of the caller's list.
\<close>

theorem App_get_dict_appends_token:
  assumes "inst_ok h self" and "list_at h excludes = Some xs"
  shows "\<exists>r h' ys. App_get_dict h self excludes = Some (r, h') \<and> list_at h' excludes = Some ys
           \<and> ys = xs @ [VStr ''token''] \<and> VStr ''token'' \<in> set ys"
proof -
  let ?h1 = "h[excludes := PyList (xs @ [VStr ''token''])]"
  have "list_at ?h1 excludes = Some (xs @ [VStr ''token''])"
    using assms(2) by (rule list_at_list_update)
  then have "list_at (?h1 @ [PyDict (keep (xs @ [VStr ''token'']) (the_attrs h self))]) excludes
               = Some (xs @ [VStr ''token''])"
    by (rule list_at_prefix [rotated]) simp
  with App_get_dict_eq [OF assms] show ?thesis by simp
qed

theorem App_get_dict_appends_token_witness:
  "inst_ok example_heap 11 \<and> list_at example_heap 13 = Some [VStr ''id'']
   \<and> (\<exists>r h'. App_get_dict example_heap 11 13 = Some (r, h')
         \<and> list_at h' 13 = Some [VStr ''id'', VStr ''token''])"
proof -
  have a: "inst_ok example_heap 11" by code_simp
  have b: "list_at example_heap 13 = Some [VStr ''id'']" by code_simp
  from App_get_dict_appends_token [OF a b]
  have "\<exists>r h'. App_get_dict example_heap 11 13 = Some (r, h')
         \<and> list_at h' 13 = Some [VStr ''id'', VStr ''token'']" by auto
  with a b show ?thesis by blast
qed

text \<open>
  C6. As stated (two successive calls \<^verbatim>\<open>record.get_dict([])\<close> on a record of any class
  return equal dictionaries and neither changes the record) this fails for an Employee and
  for a Role: the first call reads the proxy, the read stores the proxy's entry in the
  record's \<^verbatim>\<open>__dict__\<close>, and the second call copies it. Below, the two calls on the
  Employee of the example return different dictionaries and the first changes its
  attributes.
\<close>

theorem get_dict_repeatable_counterexample:
  "do { (r1, h1) \<leftarrow> get_dict_empty Employee example_heap 9;
        (r2, h2) \<leftarrow> get_dict_empty Employee h1 9;
        m1 \<leftarrow> dict_at h1 r1;
        m2 \<leftarrow> dict_at h2 r2;
        Some (m1 = m2, attrs h1 9 = attrs example_heap 9,
              map_of m1 roles_key, map_of m2 roles_key) }
     = Some (False, False, None, Some (VProxy 9))"
  by code_simp

text \<open>
  C6, amended. Two successive calls \<^verbatim>\<open>record.get_dict([])\<close> return dictionaries with
  the same entries, and neither call changes the record or any other object that existed
  before, for a record of a class without an association proxy (User, App, Group,
  EmployeeToRole, RoleToGroup), and for a Role or an Employee on which the proxies have
  been read: the Role's \<^verbatim>\<open>__dict__\<close>, or the Employee's and that of each of its roles,
  holds the proxy's entry.
\<close>

theorem get_dict_repeatable:
  assumes "record_ok k h self" and "warmed k h self"
  shows "\<exists>r1 h1 r2 h2 m. get_dict_empty k h self = Some (r1, h1)
           \<and> get_dict_empty k h1 self = Some (r2, h2)
           \<and> dict_at h1 r1 = Some m \<and> dict_at h2 r2 = Some m \<and> dict_at h2 r1 = Some m
           \<and> attrs h1 self = attrs h self \<and> attrs h2 self = attrs h self
           \<and> proxy h1 self = proxy h self \<and> proxy h2 self = proxy h self
           \<and> prefix h h1 \<and> prefix h1 h2"
proof -
  have t: "(if k = App then H else touched k H self e []) = H" if "warmed k H self" for H e
    using that by (simp add: warmed_touched)
  from get_dict_empty_ok [OF assms(1), of 0] t [OF assms(2)] obtain h1 where
    g1: "get_dict_empty k h self = Some (Suc (length h), h1)" and p1: "prefix h h1"
    and d1: "dict_at h1 (Suc (length h)) = Some (content k h self [])" by auto
  have ok1: "record_ok k h1 self" using p1 assms(1) by (rule record_ok_prefix)
  have w1: "warmed k h1 self" using p1 assms by (rule warmed_prefix)
  from get_dict_empty_ok [OF ok1, of 0] t [OF w1] obtain h2 where
    g2: "get_dict_empty k h1 self = Some (Suc (length h1), h2)" and p2: "prefix h1 h2"
    and d2: "dict_at h2 (Suc (length h1)) = Some (content k h1 self [])" by auto
  have c: "content k h1 self [] = content k h self []"
    using p1 assms(1) by (rule content_prefix)
  have i: "inst_ok h self" using assms(1) by (rule record_ok_inst_ok)
  have a1: "attrs h1 self = attrs h self"
    using attrs_prefix [OF p1 inst_ok_attrs [OF i]] inst_ok_attrs [OF i] by simp
  have a2: "attrs h2 self = attrs h self"
    using attrs_prefix [OF p2] a1 inst_ok_attrs [OF i] by simp
  have x1: "proxy h1 self = proxy h self"
    using proxy_prefix [OF p1 inst_ok_proxy [OF i]] inst_ok_proxy [OF i] by simp
  have x2: "proxy h2 self = proxy h self"
    using proxy_prefix [OF p2] x1 inst_ok_proxy [OF i] by simp
  have d12: "dict_at h2 (Suc (length h)) = Some (content k h self [])"
    using p2 d1 by (rule dict_at_prefix)
  from g1 g2 d1 d2 d12 c a1 a2 x1 x2 p1 p2 show ?thesis by simp
qed

theorem get_dict_repeatable_witness:
  "record_ok Employee example_warm 9 \<and> warmed Employee example_warm 9
   \<and> (\<exists>r1 h1 r2 h2 m. get_dict_empty Employee example_warm 9 = Some (r1, h1)
         \<and> get_dict_empty Employee h1 9 = Some (r2, h2)
         \<and> dict_at h1 r1 = Some m \<and> dict_at h2 r2 = Some m
         \<and> attrs h2 9 = attrs example_warm 9 \<and> proxy h2 9 = proxy example_warm 9)"
proof -
  have a: "record_ok Employee example_warm 9" by code_simp
  have b: "warmed Employee example_warm 9" by code_simp
  from get_dict_repeatable [OF a b]
  have "\<exists>r1 h1 r2 h2 m. get_dict_empty Employee example_warm 9 = Some (r1, h1)
         \<and> get_dict_empty Employee h1 9 = Some (r2, h2)
         \<and> dict_at h1 r1 = Some m \<and> dict_at h2 r2 = Some m
         \<and> attrs h2 9 = attrs example_warm 9 \<and> proxy h2 9 = proxy example_warm 9" by blast
  with a b show ?thesis by blast
qed

text \<open>
  C7. In a newly loaded module, a new
  \<^verbatim>\<open>Employee(email="a@x.com", first_name="A", last_name="B")\<close> serialised with the
  default list gives exactly the five entries \<^verbatim>\<open>email\<close>, \<^verbatim>\<open>first_name\<close>,
  \<^verbatim>\<open>last_name\<close>, \<^verbatim>\<open>slack_id\<close> (the empty string) and \<^verbatim>\<open>roles\<close> (the empty
  list). There is no \<^verbatim>\<open>id\<close>: the constructor does not set it.
\<close>

theorem Employee_new_get_dict:
  "do { (employee, h1) \<leftarrow> Employee_new heap0 (VStr ''a@x.com'') (VStr ''A'') (VStr ''B'') (VStr '''');
        (r, h2) \<leftarrow> Employee_get_dict h1 employee Employee_default;
        dict_at h2 r }
     = Some [(''email'', VStr ''a@x.com''), (''first_name'', VStr ''A''), (''last_name'', VStr ''B''),
             (''slack_id'', VStr ''''), (''roles'', VList [])]
   \<and> do { (employee, h1) \<leftarrow> Employee_new heap0 (VStr ''a@x.com'') (VStr ''A'') (VStr ''B'') (VStr '''');
          m \<leftarrow> attrs h1 employee;
          Some (map_of m ''id'') } = Some None"
  by code_simp

text \<open>
  C8. As stated (\<^verbatim>\<open>get_dict\<close> returns a mapping for every record and every exclusion
  set) this fails. \<^verbatim>\<open>App.get_dict\<close> calls \<^verbatim>\<open>append\<close> on its argument (line 158), which a
  set does not have; and \<^verbatim>\<open>Employee.get_dict\<close> calls \<^verbatim>\<open>get_dict\<close> on the role of each
  association row (line 125), which is \<^verbatim>\<open>None\<close> for a row made without one (line 251).
  Below, the App of the example with a set of names, and the Employee whose row has no
  role with an empty list: both calls raise.
\<close>

theorem get_dict_total_counterexample:
  "inst_ok example_heap 11 \<and> lookup example_heap 17 = Some (PySet [VStr ''id''])
   \<and> get_dict App example_heap 11 17 = None
   \<and> inst_ok example_heap 20 \<and> proxy example_heap 20 = Some [18]
   \<and> lookup example_heap 18 = Some PyNone \<and> list_at example_heap 14 = Some []
   \<and> get_dict Employee example_heap 20 14 = None"
  by code_simp

text \<open>
  C8, amended. \<^verbatim>\<open>get_dict\<close> returns a dictionary for a record of any class whose
  association rows all have their role or group, when the exclusion argument is a list;
  for the classes other than App also when it is a tuple, a set or a dictionary. A name in
  the argument that is no attribute of the record is ignored: the call returns the same
  entries as with the collection from which that name is removed. (\<^verbatim>\<open>roles\<close> is an
  attribute of an Employee and \<^verbatim>\<open>groups\<close> of a Role, through the proxy.)
\<close>

theorem get_dict_total:
  assumes "record_ok k h self" and "attrs h self = Some a" and "members h excludes = Some xs"
    and "k = App \<longrightarrow> list_at h excludes = Some xs"
  shows "\<exists>r h' m. get_dict k h self excludes = Some (r, h') \<and> dict_at h' r = Some m
           \<and> (\<forall>n e2. n \<notin> dict_keys a \<and> \<not> (k = Employee \<and> n = ''roles'')
                  \<and> \<not> (k = Role \<and> n = ''groups'')
                  \<and> members h e2 = Some (removeAll (VStr n) xs)
                  \<and> (k = App \<longrightarrow> list_at h e2 = Some (removeAll (VStr n) xs))
                \<longrightarrow> (\<exists>r2 h2. get_dict k h self e2 = Some (r2, h2) \<and> dict_at h2 r2 = Some m))"
proof -
  from assms(2) have a: "the_attrs h self = a" by (simp add: the_attrs_def)
  from get_dict_ok [OF assms(1,3)] assms(4) obtain h' where
    g: "get_dict k h self excludes = Some (length h, h')"
    and m: "dict_at h' (length h) = Some (content k h self xs)" by blast
  have "\<exists>r2 h2. get_dict k h self e2 = Some (r2, h2) \<and> dict_at h2 r2 = Some (content k h self xs)"
    if "n \<notin> dict_keys a" and "\<not> (k = Employee \<and> n = ''roles'')" and "\<not> (k = Role \<and> n = ''groups'')"
      and "members h e2 = Some (removeAll (VStr n) xs)"
      and "k = App \<longrightarrow> list_at h e2 = Some (removeAll (VStr n) xs)" for n e2
    using get_dict_ok [OF assms(1) that(4)] content_removeAll [of n h self k xs] that(1,2,3,5) a
    by auto
  with g m show ?thesis by blast
qed

theorem get_dict_total_witness:
  "record_ok Employee example_heap 9
   \<and> attrs example_heap 9 = Some [(''id'', VInt 1), (''email'', VStr ''a@x.com''),
        (''first_name'', VStr ''A''), (''last_name'', VStr ''B''), (''slack_id'', VStr '''')]
   \<and> members example_heap 12 = Some [VStr ''id'', VStr ''nickname'']
   \<and> members example_heap 17 = Some (removeAll (VStr ''nickname'') [VStr ''id'', VStr ''nickname''])
   \<and> (\<exists>r h' m r2 h2. get_dict Employee example_heap 9 12 = Some (r, h') \<and> dict_at h' r = Some m
         \<and> get_dict Employee example_heap 9 17 = Some (r2, h2) \<and> dict_at h2 r2 = Some m)"
proof -
  have a: "record_ok Employee example_heap 9" by code_simp
  have b: "attrs example_heap 9 = Some [(''id'', VInt 1), (''email'', VStr ''a@x.com''),
        (''first_name'', VStr ''A''), (''last_name'', VStr ''B''), (''slack_id'', VStr '''')]"
    by code_simp
  have c: "members example_heap 12 = Some [VStr ''id'', VStr ''nickname'']" by code_simp
  have d: "members example_heap 17 = Some (removeAll (VStr ''nickname'') [VStr ''id'', VStr ''nickname''])"
    by code_simp
  have k: "Employee = App \<longrightarrow> list_at example_heap 12 = Some [VStr ''id'', VStr ''nickname'']"
    by simp
  have n: "''nickname'' \<notin> dict_keys [(''id'', VInt 1), (''email'', VStr ''a@x.com''),
        (''first_name'', VStr ''A''), (''last_name'', VStr ''B''), (''slack_id'', VStr '''')]"
    by (simp add: dict_keys_def)
  from get_dict_total [OF a b c k] obtain r h' m where
    g: "get_dict Employee example_heap 9 12 = Some (r, h')" "dict_at h' r = Some m"
    and u: "\<forall>n e2. n \<notin> dict_keys [(''id'', VInt 1), (''email'', VStr ''a@x.com''),
                (''first_name'', VStr ''A''), (''last_name'', VStr ''B''), (''slack_id'', VStr '''')]
              \<and> \<not> (Employee = Employee \<and> n = ''roles'') \<and> \<not> (Employee = Role \<and> n = ''groups'')
              \<and> members example_heap e2 = Some (removeAll (VStr n) [VStr ''id'', VStr ''nickname''])
              \<and> (Employee = App \<longrightarrow>
                    list_at example_heap e2 = Some (removeAll (VStr n) [VStr ''id'', VStr ''nickname'']))
            \<longrightarrow> (\<exists>r2 h2. get_dict Employee example_heap 9 e2 = Some (r2, h2) \<and> dict_at h2 r2 = Some m)"
    by blast
  from u [rule_format, of "''nickname''" 17] n d
  have "\<exists>r2 h2. get_dict Employee example_heap 9 17 = Some (r2, h2) \<and> dict_at h2 r2 = Some m"
    by simp
  with g a b c d show ?thesis by blast
qed

text \<open>
  C9. The dictionary that \<^verbatim>\<open>get_dict\<close> returns is a new object that holds a mapping, and
  it is not the record's \<^verbatim>\<open>__dict__\<close>: whatever entries are later written to it, it then
  holds them, and the record keeps the \<^verbatim>\<open>__dict__\<close>, the attributes and the associated
  records that it has when the call returns.
\<close>

theorem get_dict_new_mapping:
  assumes "record_ok k h self" and "inst_at h self = Some (d, ps)"
    and "list_at h excludes = Some xs"
  shows "\<exists>r h' m a. get_dict k h self excludes = Some (r, h') \<and> dict_at h' r = Some m
           \<and> lookup h r = None \<and> r \<noteq> d \<and> r \<noteq> self
           \<and> inst_at h' self = Some (d, ps) \<and> dict_at h' d = Some a
           \<and> (\<forall>m'. dict_at (h'[r := PyDict m']) r = Some m'
                  \<and> inst_at (h'[r := PyDict m']) self = Some (d, ps)
                  \<and> dict_at (h'[r := PyDict m']) d = Some a
                  \<and> attrs (h'[r := PyDict m']) self = Some a)"
proof -
  let ?t = "touched k h self excludes xs"
  from get_dict_ok [OF assms(1) list_at_members [OF assms(3)] assms(3)] obtain h' where
    g: "get_dict k h self excludes = Some (length h, h')" and p: "prefix ?t h'"
    and m: "dict_at h' (length h) = Some (content k h self xs)" by blast
  have i: "inst_at ?t self = Some (d, ps)"
    using inst_at_touched [of h excludes xs k] assms(2,3) by simp
  then have i': "inst_at h' self = Some (d, ps)" by (rule inst_at_prefix [OF p])
  have ok: "inst_ok h self" using assms(1) by (rule record_ok_inst_ok)
  then obtain a0 where a0: "dict_at h d = Some a0"
    using assms(2) by (auto elim: inst_okE)
  have dl: "d < length h" using a0 by (rule dict_at_SomeD)
  have "inst_ok ?t self"
    using inst_ok_touched [of h excludes xs k] assms(3) ok by simp
  with p have ok': "inst_ok h' self" by (rule inst_ok_prefix)
  then obtain a where a: "dict_at h' d = Some a"
    using i' by (auto elim: inst_okE)
  have new: "lookup h (length h) = None" by (simp add: lookup_def)
  have d: "length h \<noteq> d" using dl by simp
  have s: "length h \<noteq> self" using inst_at_SomeD [OF assms(2)] by simp
  have r: "length h < length h'" using dict_at_SomeD [OF m] .
  have after: "dict_at (h'[length h := PyDict m']) (length h) = Some m'
      \<and> inst_at (h'[length h := PyDict m']) self = Some (d, ps)
      \<and> dict_at (h'[length h := PyDict m']) d = Some a
      \<and> attrs (h'[length h := PyDict m']) self = Some a" for m'
    using r d s i' a
    by (simp add: dict_at_update_same inst_at_update_other dict_at_update_other attrs_def dict_of_def)
  from g m new d s i' a after show ?thesis by blast
qed

theorem get_dict_new_mapping_witness:
  "record_ok Role example_heap 7 \<and> inst_at example_heap 7 = Some (6, [5])
   \<and> list_at example_heap 12 = Some [VStr ''id'', VStr ''nickname'']
   \<and> (\<exists>r h' m a. get_dict Role example_heap 7 12 = Some (r, h') \<and> dict_at h' r = Some m
         \<and> r \<noteq> 6 \<and> dict_at h' 6 = Some a
         \<and> dict_at (h'[r := PyDict [(''name'', VStr ''changed'')]]) r = Some [(''name'', VStr ''changed'')]
         \<and> dict_at (h'[r := PyDict [(''name'', VStr ''changed'')]]) 6 = Some a)"
proof -
  have a: "record_ok Role example_heap 7" by code_simp
  have b: "inst_at example_heap 7 = Some (6, [5])" by code_simp
  have c: "list_at example_heap 12 = Some [VStr ''id'', VStr ''nickname'']" by code_simp
  from get_dict_new_mapping [OF a b c]
  have "\<exists>r h' m a. get_dict Role example_heap 7 12 = Some (r, h') \<and> dict_at h' r = Some m
         \<and> r \<noteq> 6 \<and> dict_at h' 6 = Some a
         \<and> dict_at (h'[r := PyDict [(''name'', VStr ''changed'')]]) r = Some [(''name'', VStr ''changed'')]
         \<and> dict_at (h'[r := PyDict [(''name'', VStr ''changed'')]]) 6 = Some a"
    by blast
  with a b c show ?thesis by blast
qed

text \<open>
  C10. For two Apps whose attributes agree on every name other than \<^verbatim>\<open>token\<close>, and
  the same exclusion list, \<^verbatim>\<open>App.get_dict\<close> returns dictionaries that map every key to
  the same value; if the attributes other than \<^verbatim>\<open>token\<close> are also in the same order,
  the two dictionaries have the same entries in the same order.
\<close>

theorem App_get_dict_token_independent:
  assumes "attrs h app1 = Some m1" and "attrs h app2 = Some m2"
    and "list_at h excludes = Some xs"
    and "\<forall>key. key \<noteq> ''token'' \<longrightarrow> map_of m1 key = map_of m2 key"
  shows "\<exists>r1 h1 d1 r2 h2 d2.
           App_get_dict h app1 excludes = Some (r1, h1) \<and> dict_at h1 r1 = Some d1
         \<and> App_get_dict h app2 excludes = Some (r2, h2) \<and> dict_at h2 r2 = Some d2
         \<and> map_of d1 = map_of d2
         \<and> (filter (\<lambda>(key, v). key \<noteq> ''token'') m1 = filter (\<lambda>(key, v). key \<noteq> ''token'') m2
              \<longrightarrow> d1 = d2)"
proof -
  let ?ys = "xs @ [VStr ''token'']"
  let ?h1 = "h[excludes := PyList ?ys]"
  have ok: "inst_ok h app1" "inst_ok h app2" using assms(1,2) by (simp_all add: inst_ok_def)
  have a: "the_attrs h app1 = m1" "the_attrs h app2 = m2"
    using assms(1,2) by (simp_all add: the_attrs_def)
  have d: "dict_at (?h1 @ [PyDict m]) (length h) = Some m" for m
    by (simp add: dict_at_def lookup_def nth_append)
  have e: "map_of (keep ?ys m1) = map_of (keep ?ys m2)"
    using assms(4) by (auto simp: map_of_keep fun_eq_iff)
  have f: "keep ?ys m1 = keep ?ys m2"
    if "filter (\<lambda>(key, v). key \<noteq> ''token'') m1 = filter (\<lambda>(key, v). key \<noteq> ''token'') m2"
    using keep_token_filter [of xs m1] keep_token_filter [of xs m2] that by simp
  show ?thesis
    using App_get_dict_eq [OF ok(1) assms(3)] App_get_dict_eq [OF ok(2) assms(3)] a d e f
    by simp
qed

theorem App_get_dict_token_independent_witness:
  "attrs example_heap 11 = Some [(''id'', VInt 1), (''name'', VStr ''Slack''), (''token'', VStr ''secret123'')]
   \<and> attrs example_heap 16 = Some [(''id'', VInt 1), (''name'', VStr ''Slack''), (''token'', VStr ''other'')]
   \<and> list_at example_heap 13 = Some [VStr ''id'']
   \<and> (\<exists>r1 h1 d1 r2 h2.
         App_get_dict example_heap 11 13 = Some (r1, h1) \<and> dict_at h1 r1 = Some d1
       \<and> App_get_dict example_heap 16 13 = Some (r2, h2) \<and> dict_at h2 r2 = Some d1)"
proof -
  have a: "attrs example_heap 11 = Some [(''id'', VInt 1), (''name'', VStr ''Slack''), (''token'', VStr ''secret123'')]"
    by code_simp
  have b: "attrs example_heap 16 = Some [(''id'', VInt 1), (''name'', VStr ''Slack''), (''token'', VStr ''other'')]"
    by code_simp
  have c: "list_at example_heap 13 = Some [VStr ''id'']" by code_simp
  have d: "\<forall>key. key \<noteq> ''token'' \<longrightarrow>
         map_of [(''id'', VInt 1), (''name'', VStr ''Slack''), (''token'', VStr ''secret123'')] key
       = map_of [(''id'', VInt 1), (''name'', VStr ''Slack''), (''token'', VStr ''other'')] key"
    by simp
  from App_get_dict_token_independent [OF a b c d]
  have "\<exists>r1 h1 d1 r2 h2.
         App_get_dict example_heap 11 13 = Some (r1, h1) \<and> dict_at h1 r1 = Some d1
       \<and> App_get_dict example_heap 16 13 = Some (r2, h2) \<and> dict_at h2 r2 = Some d1"
    by auto
  with a b c show ?thesis by blast
qed


end
